theory Spec2Isabelle
  imports Complex_Main "HOL-Library.Log_Nat"
begin

section \<open>Python values used by data\_collection\_tools.py\<close>

text \<open>
  Exceptions are values. Each constructor is one way the exchange and transaction
  pipeline of \<^verbatim>\<open>data_collection_tools.py\<close> can raise:
  \<^item> \<open>ColumnCountError\<close>: \<^verbatim>\<open>pd.DataFrame(data, columns=[4 names])\<close> on data whose widest
    row does not have four cells (pandas raises ValueError);
  \<^item> \<open>MissingCellError\<close>: a method call on a cell that pandas padded with None
    (AttributeError);
  \<^item> \<open>FloatParseError\<close>: \<^verbatim>\<open>float(s)\<close> on a string that is not a float literal (ValueError);
  \<^item> \<open>NoObjectsToConcatenate\<close>: \<^verbatim>\<open>pd.concat([])\<close> (ValueError);
  \<^item> \<open>FrameConstructorError\<close>: \<^verbatim>\<open>pd.DataFrame(s)\<close> on a string (ValueError);
  \<^item> \<open>KeyError\<close>: a column looked up by a name the pandas value does not have;
  \<^item> \<open>RequestError\<close>: any exception of the HTTP request or of the HTML/JSON decoding.
\<close>

datatype error =
    ColumnCountError
  | MissingCellError
  | FloatParseError
  | NoObjectsToConcatenate
  | FrameConstructorError
  | KeyError
  | RequestError

text \<open>
  A Python float: a finite binary64 number, given by the rational it is equal to, an
  infinity, or NaN. The sign of zero is not kept (\<open>-0.0\<close> and \<open>0.0\<close> compare equal).
  Characters are code points below 256.
\<close>

datatype pyfloat = Finite rat | PosInf | NegInf | NaN

text \<open>The comparison \<^verbatim>\<open>a > b\<close> of Python numbers: false as soon as one side is NaN.\<close>

fun py_gt :: "pyfloat \<Rightarrow> pyfloat \<Rightarrow> bool" where
  "py_gt NaN b = False"
| "py_gt a NaN = False"
| "py_gt (Finite a) (Finite b) = (b < a)"
| "py_gt (Finite a) PosInf = False"
| "py_gt (Finite a) NegInf = True"
| "py_gt PosInf PosInf = False"
| "py_gt PosInf b = True"
| "py_gt NegInf b = False"

subsection \<open>String methods\<close>

text \<open>\<^verbatim>\<open>s.strip(chars)\<close>: drop, at both ends, every character that occurs in \<open>chars\<close>.\<close>

definition py_strip :: "string \<Rightarrow> string \<Rightarrow> string" where
  "py_strip chars s =
     rev (dropWhile (\<lambda>c. c \<in> set chars) (rev (dropWhile (\<lambda>c. c \<in> set chars) s)))"

text \<open>\<^verbatim>\<open>s.replace(old, "")\<close> for a one-character \<open>old\<close>: every occurrence is deleted.\<close>

definition py_replace_empty :: "char \<Rightarrow> string \<Rightarrow> string" where
  "py_replace_empty old s = filter (\<lambda>c. c \<noteq> old) s"

subsection \<open>The builtin float() on ASCII strings\<close>

definition is_digit :: "char \<Rightarrow> bool" where
  "is_digit c = (c \<in> set ''0123456789'')"

text \<open>
  The whitespace float() strips: the ASCII blanks of C's isspace, and the Unicode spaces
  among the code points below 256 (NEL and the no-break space). The separators 0x1C to
  0x1F are not stripped.
\<close>

definition is_space :: "char \<Rightarrow> bool" where
  "is_space c = (c \<in> set [CHR '' '', CHR 0x09, CHR 0x0A, CHR 0x0B, CHR 0x0C, CHR 0x0D,
                             CHR 0x85, CHR 0xA0])"

definition digit_val :: "char \<Rightarrow> nat" where
  "digit_val c = of_char c - 48"

definition dec_value :: "string \<Rightarrow> nat" where
  "dec_value ds = foldl (\<lambda>a c. 10 * a + digit_val c) 0 ds"

definition to_lower :: "char \<Rightarrow> char" where
  "to_lower c = (if c \<in> set ''ABCDEFGHIJKLMNOPQRSTUVWXYZ''
                 then char_of (of_char c + (32::nat)) else c)"

text \<open>
  An underscore is accepted only between two digits. \<open>prev\<close> is the character before
  the one being read, as in CPython's scan.
\<close>

fun underscores_ok :: "char option \<Rightarrow> string \<Rightarrow> bool" where
  "underscores_ok prev [] = (prev \<noteq> Some (CHR ''_''))"
| "underscores_ok prev (c # cs) =
     (if c = CHR ''_''
      then (case prev of None \<Rightarrow> False | Some p \<Rightarrow> is_digit p) \<and> underscores_ok (Some c) cs
      else (if prev = Some (CHR ''_'') then is_digit c else True) \<and> underscores_ok (Some c) cs)"

definition split_sign :: "string \<Rightarrow> bool \<times> string" where
  "split_sign t =
     (case t of
        [] \<Rightarrow> (False, [])
      | c # cs \<Rightarrow> if c = CHR ''-'' then (True, cs)
                 else if c = CHR ''+'' then (False, cs) else (False, t))"

text \<open>The exponent part, the text from the first \<open>e\<close> or \<open>E\<close> on (empty when there is none).\<close>

definition parse_exponent :: "string \<Rightarrow> int option" where
  "parse_exponent e =
     (case e of
        [] \<Rightarrow> Some 0
      | _ # x \<Rightarrow>
          (let (neg, ds) = split_sign x
           in if ds \<noteq> [] \<and> list_all is_digit ds
              then Some (if neg then - int (dec_value ds) else int (dec_value ds))
              else None))"

definition scale10 :: "rat \<Rightarrow> int \<Rightarrow> rat" where
  "scale10 q e = (if 0 \<le> e then q * 10 ^ nat e else q / 10 ^ nat (- e))"

text \<open>An unsigned decimal literal: digits, an optional point, digits, an optional exponent.\<close>

definition parse_decimal :: "string \<Rightarrow> rat option" where
  "parse_decimal u =
     (let m = takeWhile (\<lambda>c. c \<noteq> CHR ''e'' \<and> c \<noteq> CHR ''E'') u;
          e = dropWhile (\<lambda>c. c \<noteq> CHR ''e'' \<and> c \<noteq> CHR ''E'') u;
          ip = takeWhile (\<lambda>c. c \<noteq> CHR ''.'') m;
          fp = dropWhile (\<lambda>c. c \<noteq> CHR ''.'') m;
          fd = (case fp of [] \<Rightarrow> [] | _ # r \<Rightarrow> r)
      in if list_all is_digit ip \<and> list_all is_digit fd \<and> \<not> (ip = [] \<and> fd = [])
         then (case parse_exponent e of
                 None \<Rightarrow> None
               | Some x \<Rightarrow> Some (scale10 (of_nat (dec_value (ip @ fd)) / 10 ^ length fd) x))
         else None)"

text \<open>
  The correctly rounded conversion of a non-negative decimal value to binary64: 53
  significant bits (fewer below \<open>2 ^ - 1022\<close>, where the spacing stays \<open>2 ^ - 1074\<close>), ties
  to the even neighbour, and infinity from \<open>2 ^ 1024\<close> on.
\<close>

definition pow2 :: "int \<Rightarrow> rat" where
  "pow2 e = (if 0 \<le> e then 2 ^ nat e else 1 / 2 ^ nat (- e))"

definition floor_log2 :: "rat \<Rightarrow> int" where
  "floor_log2 q = (if 1 \<le> q then bitlen \<lfloor>q\<rfloor> - 1 else - bitlen (\<lceil>1 / q\<rceil> - 1))"

definition round_half_even :: "rat \<Rightarrow> int" where
  "round_half_even x =
     (let f = \<lfloor>x\<rfloor>; d = x - of_int f
      in if d < 1 / 2 then f else if 1 / 2 < d then f + 1 else if even f then f else f + 1)"

definition round_binary64 :: "rat \<Rightarrow> pyfloat" where
  "round_binary64 q =
     (if q = 0 then Finite 0
      else
        (let ue = max (floor_log2 q) (- 1022) - 52;
             r = of_int (round_half_even (q / pow2 ue)) * pow2 ue
         in if 2 ^ 1024 \<le> r then PosInf else Finite r))"

fun py_neg :: "pyfloat \<Rightarrow> pyfloat" where
  "py_neg (Finite r) = Finite (- r)"
| "py_neg PosInf = NegInf"
| "py_neg NegInf = PosInf"
| "py_neg NaN = NaN"

definition py_float :: "string \<Rightarrow> error + pyfloat" where
  "py_float s =
     (if \<not> underscores_ok None s then Inl FloatParseError
      else
        (let t = rev (dropWhile is_space (rev (dropWhile is_space
                   (filter (\<lambda>c. c \<noteq> CHR ''_'') s))));
             (neg, u) = split_sign t;
             l = map to_lower u
         in if l = ''inf'' \<or> l = ''infinity'' then Inr (if neg then NegInf else PosInf)
            else if l = ''nan'' then Inr NaN
            else (case parse_decimal u of
                    None \<Rightarrow> Inl FloatParseError
                  | Some q \<Rightarrow>
                      Inr (if neg then py_neg (round_binary64 q) else round_binary64 q))))"

section \<open>Exchange table: normalizer and builder\<close>

record exchange_record =
  address :: string
  name :: string
  balance :: pyfloat
  txn_count :: pyfloat

text \<open>The two lambdas of \<^verbatim>\<open>_format_exchange_data\<close>.\<close>

definition balance_lambda :: "string \<Rightarrow> error + pyfloat" where
  "balance_lambda str = py_float (py_replace_empty (CHR '','') (py_strip '' Ether'' str))"

definition txn_count_lambda :: "string \<Rightarrow> error + pyfloat" where
  "txn_count_lambda str = py_float (py_replace_empty (CHR '','') str)"

text \<open>
  The strings the normalizer is specified on: digits and grouping commas only, with at
  least one digit. Every comma-grouped number such as \<open>12,345\<close> is one.
\<close>

definition digits_with_commas :: "string \<Rightarrow> bool" where
  "digits_with_commas n = (list_all (\<lambda>c. is_digit c \<or> c = CHR '','') n \<and> list_ex is_digit n)"

text \<open>
  \<^verbatim>\<open>pd.DataFrame(data, columns=[four names])\<close> on a list of rows: no rows give the empty
  frame; otherwise the widest row decides the number of columns, which must be four,
  and shorter rows are padded with None.
\<close>

definition pad_row :: "nat \<Rightarrow> string list \<Rightarrow> string option list" where
  "pad_row w r = map Some r @ replicate (w - length r) None"

definition data_frame4 :: "string list list \<Rightarrow> error + string option list list" where
  "data_frame4 data =
     (if data = [] then Inr []
      else if fold max (map length data) 0 \<noteq> 4 then Inl ColumnCountError
      else Inr (map (pad_row 4) data))"

text \<open>\<^verbatim>\<open>column.apply(f)\<close>: \<open>f\<close> on every cell in row order; the first exception ends it.\<close>

fun apply_column :: "(string \<Rightarrow> error + pyfloat) \<Rightarrow> string option list \<Rightarrow> error + pyfloat list" where
  "apply_column f [] = Inr []"
| "apply_column f (None # cs) = Inl MissingCellError"
| "apply_column f (Some s # cs) =
     (case f s of
        Inl e \<Rightarrow> Inl e
      | Inr v \<Rightarrow> (case apply_column f cs of Inl e \<Rightarrow> Inl e | Inr vs \<Rightarrow> Inr (v # vs)))"

definition cell_text :: "string option \<Rightarrow> string" where
  "cell_text c = (case c of None \<Rightarrow> [] | Some s \<Rightarrow> s)"

definition format_exchange_data :: "string list list \<Rightarrow> error + exchange_record list" where
  "format_exchange_data rows =
     (case data_frame4 (drop 1 rows) of
        Inl e \<Rightarrow> Inl e
      | Inr df \<Rightarrow>
          (case apply_column balance_lambda (map (\<lambda>r. r ! 2) df) of
             Inl e \<Rightarrow> Inl e
           | Inr bs \<Rightarrow>
               (case apply_column txn_count_lambda (map (\<lambda>r. r ! 3) df) of
                  Inl e \<Rightarrow> Inl e
                | Inr ts \<Rightarrow>
                    Inr (map (\<lambda>(r, b, t).
                           \<lparr>address = cell_text (r ! 0), name = cell_text (r ! 1),
                            balance = b, txn_count = t\<rparr>)
                         (zip df (zip bs ts))))))"

text \<open>\<^verbatim>\<open>pd.concat(frames)\<close>: the rows of the frames in order; an empty list raises.\<close>

definition pd_concat :: "'a list list \<Rightarrow> error + 'a list" where
  "pd_concat frames = (if frames = [] then Inl NoObjectsToConcatenate else Inr (concat frames))"

section \<open>Exchange scraper\<close>

text \<open>
  The listing site is the environment: \<open>site page_number page_limit\<close> is what lines
  120 to 125 compute for one URL, the extracted rows or an exception. Every page number
  is requested at most once, so a function of the page number covers every run. The
  result of a run carries the list of the requests issued, each a pair of page number
  and page size. The loop has no bound of its own: a run that never ends is \<open>None\<close>.
\<close>

type_synonym listing_site = "int \<Rightarrow> int \<Rightarrow> error + string list list"

partial_function (option) scrape_loop ::
  "listing_site \<Rightarrow> int \<Rightarrow> int \<Rightarrow> (int \<times> int) list \<Rightarrow> exchange_record list list
     \<Rightarrow> ((int \<times> int) list \<times> (error + exchange_record list list)) option"
where
  "scrape_loop site page_limit page_number sent exchanges =
     (case site page_number page_limit of
        Inl e \<Rightarrow> Some (sent @ [(page_number, page_limit)], Inl e)
      | Inr rows \<Rightarrow>
          if length rows \<le> 2 then Some (sent @ [(page_number, page_limit)], Inr exchanges)
          else (case format_exchange_data rows of
                  Inl e \<Rightarrow> Some (sent @ [(page_number, page_limit)], Inl e)
                | Inr df \<Rightarrow>
                    scrape_loop site page_limit (page_number + 1)
                      (sent @ [(page_number, page_limit)]) (exchanges @ [df])))"

definition scrape_exchanges ::
  "listing_site \<Rightarrow> ((int \<times> int) list \<times> (error + exchange_record list)) option" where
  "scrape_exchanges site =
     (case scrape_loop site 100 1 [] [] of
        None \<Rightarrow> None
      | Some (sent, Inl e) \<Rightarrow> Some (sent, Inl e)
      | Some (sent, Inr exchanges) \<Rightarrow> Some (sent, pd_concat exchanges))"

section \<open>Exchange filter\<close>

text \<open>\<^verbatim>\<open>df[mask]\<close> with a boolean mask on the same index: the rows whose flag is set.\<close>

definition bool_index :: "'a list \<Rightarrow> bool list \<Rightarrow> 'a list" where
  "bool_index df flags = map fst (filter snd (zip df flags))"

definition top_exchange_rows ::
  "exchange_record list \<Rightarrow> pyfloat \<Rightarrow> pyfloat \<Rightarrow> exchange_record list" where
  "top_exchange_rows exhanges_df min_balance min_txn_count =
     (let balance_condition = map (\<lambda>r. py_gt (balance r) min_balance) exhanges_df;
          txn_condition = map (\<lambda>r. py_gt (txn_count r) min_txn_count) exhanges_df
      in bool_index exhanges_df (map (\<lambda>(a, b). a \<and> b) (zip balance_condition txn_condition)))"

definition filter_top_exchange_addresses ::
  "exchange_record list \<Rightarrow> pyfloat \<Rightarrow> pyfloat \<Rightarrow> string list" where
  "filter_top_exchange_addresses exhanges_df min_balance min_txn_count =
     map address (top_exchange_rows exhanges_df min_balance min_txn_count)"

definition default_min_balance :: pyfloat where
  "default_min_balance = Finite 2000"

definition default_min_txn_count :: pyfloat where
  "default_min_txn_count = Finite 400000"

text \<open>
  The function on the pandas values a caller can hand it: a table with the four columns,
  or a single column, such as the address column the function itself returns. Line 150
  starts with the lookup of \<open>'balance'\<close>; on a single column, whose labels are row numbers,
  that lookup raises KeyError.
\<close>

datatype pandas_value = Frame "exchange_record list" | Column "string list"

definition filter_top_exchange_addresses_on ::
  "pandas_value \<Rightarrow> pyfloat \<Rightarrow> pyfloat \<Rightarrow> error + pandas_value" where
  "filter_top_exchange_addresses_on v min_balance min_txn_count =
     (case v of
        Frame exhanges_df \<Rightarrow>
          Inr (Column (filter_top_exchange_addresses exhanges_df min_balance min_txn_count))
      | Column addresses \<Rightarrow> Inl KeyError)"

section \<open>Transaction history fetcher\<close>

record txn_request =
  req_address :: string
  req_page :: int
  req_offset :: int
  req_apikey :: string

record 'tx txn_response =
  status :: string
  message :: string
  result :: "string + 'tx list"

text \<open>
  The explorer's API is the environment. The same address may occur twice in the input,
  so the answer may depend on the requests issued before: \<open>api sent req\<close> is the decoded
  JSON answer to \<open>req\<close> after the requests of \<open>sent\<close>, or an exception.
\<close>

type_synonym 'tx txn_api = "txn_request list \<Rightarrow> txn_request \<Rightarrow> error + 'tx txn_response"

text \<open>
  The while loop of \<^verbatim>\<open>get_txn_history\<close> for one address. With an offset that is not
  positive the guard never fails, and the loop ends only when the API reports a failure.
\<close>

partial_function (option) paging ::
  "'tx txn_api \<Rightarrow> string \<Rightarrow> string \<Rightarrow> int \<Rightarrow> int \<Rightarrow> txn_request list \<Rightarrow> 'tx list list
     \<Rightarrow> (txn_request list \<times> (error + 'tx list list)) option"
where
  "paging api addr api_key offset page sent txns =
     (if page * offset \<le> 10000 then
        (let req = \<lparr>req_address = addr, req_page = page, req_offset = offset,
                    req_apikey = api_key\<rparr>
         in case api sent req of
              Inl e \<Rightarrow> Some (sent @ [req], Inl e)
            | Inr response \<Rightarrow>
                if status response \<noteq> ''1'' then Some (sent @ [req], Inr txns)
                else (case result response of
                        Inl s \<Rightarrow> Some (sent @ [req], Inl FrameConstructorError)
                      | Inr page_txns \<Rightarrow>
                          paging api addr api_key offset (page + 1) (sent @ [req])
                            (txns @ [page_txns])))
      else Some (sent, Inr txns))"

text \<open>The for loop over the addresses; the dictionary is a map from address to table.\<close>

fun fetch_addresses ::
  "'tx txn_api \<Rightarrow> string \<Rightarrow> int \<Rightarrow> string list \<Rightarrow> txn_request list \<Rightarrow> (string \<rightharpoonup> 'tx list)
     \<Rightarrow> (txn_request list \<times> (error + (string \<rightharpoonup> 'tx list))) option"
where
  "fetch_addresses api api_key offset [] sent txns_by_address = Some (sent, Inr txns_by_address)"
| "fetch_addresses api api_key offset (addr # rest) sent txns_by_address =
     (case paging api addr api_key offset 1 sent [] of
        None \<Rightarrow> None
      | Some (sent', Inl e) \<Rightarrow> Some (sent', Inl e)
      | Some (sent', Inr txns) \<Rightarrow>
          (case pd_concat txns of
             Inl e \<Rightarrow> Some (sent', Inl e)
           | Inr table \<Rightarrow>
               fetch_addresses api api_key offset rest sent' (txns_by_address(addr \<mapsto> table))))"

text \<open>\<open>getpass\<close> is what the operator types at the prompt when no key is passed.\<close>

definition get_txn_history ::
  "string \<Rightarrow> 'tx txn_api \<Rightarrow> string list \<Rightarrow> string option \<Rightarrow> int
     \<Rightarrow> (txn_request list \<times> (error + (string \<rightharpoonup> 'tx list))) option" where
  "get_txn_history getpass api addresses api_key offset =
     fetch_addresses api (case api_key of None \<Rightarrow> getpass | Some k \<Rightarrow> k) offset addresses
       [] Map.empty"

section \<open>Pages of a scraper run\<close>

text \<open>
  What a run of the scraper meets at page \<open>p\<close>: the rows the page yields, the table
  fragment the builder makes of them, whether the loop goes on after it (more than two
  rows, accepted by the builder) or ends normally at it (two rows or fewer), and what the
  loop returns when it ends at \<open>p\<close> with the fragments collected so far.
  \<open>stub_three_pages\<close> is the stub source of the spec's test: three pages of a header and
  two data rows, then pages of two rows.
\<close>

definition page_rows :: "listing_site \<Rightarrow> int \<Rightarrow> int \<Rightarrow> string list list" where
  "page_rows site page_limit p = (case site p page_limit of Inl e \<Rightarrow> [] | Inr rows \<Rightarrow> rows)"

definition page_records :: "listing_site \<Rightarrow> int \<Rightarrow> int \<Rightarrow> exchange_record list" where
  "page_records site page_limit p =
     (case site p page_limit of
        Inl e \<Rightarrow> []
      | Inr rows \<Rightarrow> (case format_exchange_data rows of Inl e \<Rightarrow> [] | Inr df \<Rightarrow> df))"

definition full_page :: "listing_site \<Rightarrow> int \<Rightarrow> int \<Rightarrow> bool" where
  "full_page site page_limit p =
     (case site p page_limit of
        Inl e \<Rightarrow> False
      | Inr rows \<Rightarrow>
          2 < length rows \<and> (case format_exchange_data rows of Inl e \<Rightarrow> False | Inr df \<Rightarrow> True))"

definition short_page :: "listing_site \<Rightarrow> int \<Rightarrow> int \<Rightarrow> bool" where
  "short_page site page_limit p =
     (case site p page_limit of Inl e \<Rightarrow> False | Inr rows \<Rightarrow> length rows \<le> 2)"

definition stop_result ::
  "listing_site \<Rightarrow> int \<Rightarrow> int \<Rightarrow> exchange_record list list \<Rightarrow> error + exchange_record list list" where
  "stop_result site page_limit p exchanges =
     (case site p page_limit of
        Inl e \<Rightarrow> Inl e
      | Inr rows \<Rightarrow>
          if length rows \<le> 2 then Inr exchanges
          else (case format_exchange_data rows of Inl e \<Rightarrow> Inl e | Inr df \<Rightarrow> Inr (exchanges @ [df])))"


definition stub_three_pages :: listing_site where
  "stub_three_pages p page_limit =
     (if p \<le> 3
      then Inr [[''Address'', ''Name Tag''],
                [''0xA'', ''Binance'', ''2,500 Ether'', ''500,000''],
                [''0xB'', ''Kraken'', ''1,000 Ether'', ''500,000'']]
      else Inr [[''Address'', ''Name Tag''], [''No entries'']])"

section \<open>Requests and endpoints of a fetcher run\<close>

text \<open>
  \<open>txn_req addr api_key offset page\<close> is the request the loop for \<open>addr\<close> issues at
  \<open>page\<close>. \<open>api_always_ok\<close> is an endpoint that answers every request with status "1" and
  an empty transaction list; \<open>api_no_transactions\<close> is the explorer's answer for an address
  without transactions: status "0" and an empty list.
\<close>

definition txn_req :: "string \<Rightarrow> string \<Rightarrow> int \<Rightarrow> int \<Rightarrow> txn_request" where
  "txn_req addr api_key offset page =
     \<lparr>req_address = addr, req_page = page, req_offset = offset, req_apikey = api_key\<rparr>"

definition api_always_ok :: "unit txn_api" where
  "api_always_ok sent req = Inr \<lparr>status = ''1'', message = ''OK'', result = Inr []\<rparr>"

definition api_no_transactions :: "unit txn_api" where
  "api_no_transactions sent req =
     Inr \<lparr>status = ''0'', message = ''No transactions found'', result = Inr []\<rparr>"

section \<open>Exchange filter: selection and idempotence\<close>

lemma bool_index_map: "bool_index df (map P df) = filter P df"
  by (induction df) (simp_all add: bool_index_def)

lemma zip_map_conj:
  "map (\<lambda>(a, b). a \<and> b) (zip (map P df) (map Q df)) = map (\<lambda>r. P r \<and> Q r) df"
  by (induction df) simp_all

lemma top_exchange_rows_filter:
  "top_exchange_rows df b c =
     filter (\<lambda>r. py_gt (balance r) b \<and> py_gt (txn_count r) c) df"
  by (simp add: top_exchange_rows_def zip_map_conj bool_index_map)

text \<open>
  C4. For every table and every pair of thresholds, the filter returns the addresses, in
  table order, of exactly the rows whose balance is greater than the balance threshold
  and whose transaction count is greater than the count threshold; on finite numbers
  "greater" is the strict order. The example of the claim is the witness.
\<close>

theorem filter_top_exchange_addresses_correct:
  "filter_top_exchange_addresses df min_balance min_txn_count =
     map address
       (filter (\<lambda>r. py_gt (balance r) min_balance \<and> py_gt (txn_count r) min_txn_count) df)
   \<and> (\<forall>x y. py_gt (Finite x) (Finite y) = (y < x))"
  by (simp add: filter_top_exchange_addresses_def top_exchange_rows_filter)

theorem filter_top_exchange_addresses_example:
  "filter_top_exchange_addresses
     [\<lparr>address = ''A'', name = ''first'', balance = Finite 2500, txn_count = Finite 500000\<rparr>,
      \<lparr>address = ''B'', name = ''second'', balance = Finite 1000, txn_count = Finite 500000\<rparr>]
     default_min_balance default_min_txn_count = [''A'']"
  by (simp add: filter_top_exchange_addresses_correct default_min_balance_def
        default_min_txn_count_def)

text \<open>
  C8. Run on its own return value, the address column alone, the filter raises KeyError
  at the lookup of the balance column (\<open>filter_rerun_on_output_raises\<close>). What is a fixed
  point is the selection: filtering the records that were selected selects all of them
  again and returns the same addresses, and a table whose rows all pass both strict
  comparisons is returned whole.
\<close>

theorem filter_rerun_on_output_raises:
  "filter_top_exchange_addresses_on
     (Frame [\<lparr>address = ''A'', name = ''first'', balance = Finite 2500, txn_count = Finite 500000\<rparr>,
             \<lparr>address = ''B'', name = ''second'', balance = Finite 1000, txn_count = Finite 500000\<rparr>])
     default_min_balance default_min_txn_count = Inr (Column [''A''])
   \<and> filter_top_exchange_addresses_on (Column [''A'']) default_min_balance default_min_txn_count
       = Inl KeyError"
  by (simp add: filter_top_exchange_addresses_on_def filter_top_exchange_addresses_def
        top_exchange_rows_filter default_min_balance_def default_min_txn_count_def)

theorem filter_top_exchange_addresses_idempotent:
  "filter_top_exchange_addresses (top_exchange_rows df b c) b c =
     filter_top_exchange_addresses df b c
   \<and> top_exchange_rows (top_exchange_rows df b c) b c = top_exchange_rows df b c
   \<and> (list_all (\<lambda>r. py_gt (balance r) b \<and> py_gt (txn_count r) c) df \<longrightarrow>
        filter_top_exchange_addresses df b c = map address df)"
  by (simp add: filter_top_exchange_addresses_def top_exchange_rows_filter list_all_iff)

theorem filter_top_exchange_addresses_idempotent_witness:
  "filter_top_exchange_addresses
     (top_exchange_rows
        [\<lparr>address = ''A'', name = ''first'', balance = Finite 2500, txn_count = Finite 500000\<rparr>,
         \<lparr>address = ''B'', name = ''second'', balance = Finite 1000, txn_count = Finite 500000\<rparr>]
        (Finite 2000) (Finite 400000))
     (Finite 2000) (Finite 400000) = [''A'']
   \<and> list_all (\<lambda>r. py_gt (balance r) (Finite 2000) \<and> py_gt (txn_count r) (Finite 400000))
        [\<lparr>address = ''A'', name = ''first'', balance = Finite 2500, txn_count = Finite 500000\<rparr>]
   \<and> filter_top_exchange_addresses
        [\<lparr>address = ''A'', name = ''first'', balance = Finite 2500, txn_count = Finite 500000\<rparr>]
        (Finite 2000) (Finite 400000) = [''A'']"
proof -
  let ?a = "\<lparr>address = ''A'', name = ''first'', balance = Finite 2500, txn_count = Finite 500000\<rparr>"
  let ?b = "\<lparr>address = ''B'', name = ''second'', balance = Finite 1000, txn_count = Finite 500000\<rparr>"
  have sel: "list_all (\<lambda>r. py_gt (balance r) (Finite 2000) \<and> py_gt (txn_count r) (Finite 400000)) [?a]"
    by simp
  have one: "filter_top_exchange_addresses [?a] (Finite 2000) (Finite 400000) = [''A'']"
    using filter_top_exchange_addresses_idempotent [of "[?a]" "Finite 2000" "Finite 400000"] sel
    by simp
  have two: "filter_top_exchange_addresses [?a, ?b] (Finite 2000) (Finite 400000) = [''A'']"
    by (simp add: filter_top_exchange_addresses_def top_exchange_rows_filter)
  from filter_top_exchange_addresses_idempotent [of "[?a, ?b]" "Finite 2000" "Finite 400000"] two
  have "filter_top_exchange_addresses (top_exchange_rows [?a, ?b] (Finite 2000) (Finite 400000))
          (Finite 2000) (Finite 400000) = [''A'']"
    by simp
  with sel one show ?thesis by simp
qed

section \<open>Record normalizer\<close>

lemma round_half_even_int: "round_half_even (of_int m) = m"
  by (simp add: round_half_even_def)

lemma pow2_nonpos: "e \<le> 0 \<Longrightarrow> pow2 e = 1 / 2 ^ nat (- e)"
  by (cases "e = 0") (simp_all add: pow2_def)

lemma round_binary64_exact:
  assumes "n < 2 ^ 53"
  shows "round_binary64 (of_nat n) = Finite (of_nat n)"
proof (cases "n = 0")
  case True
  then show ?thesis by (simp add: round_binary64_def)
next
  case False
  then have one: "(1::rat) \<le> of_nat n" by simp
  have fl: "floor_log2 (of_nat n) = bitlen (int n) - 1"
    using one by (simp add: floor_log2_def)
  have "bitlen (int n) \<le> 53"
    using assms less_power_nat_iff_bitlen [of n 53] by simp
  then have ue: "max (floor_log2 (of_nat n)) (- 1022) - 52 \<le> 0"
    by (simp add: fl)
  define k where "k = nat (- (max (floor_log2 (of_nat n)) (- 1022) - 52))"
  have p: "pow2 (max (floor_log2 (of_nat n)) (- 1022) - 52) = 1 / 2 ^ k"
    using ue by (simp add: pow2_nonpos k_def)
  have q: "(of_nat n :: rat) * 2 ^ k = of_int (int n * 2 ^ k)" by simp
  have r: "of_int (round_half_even (of_nat n * 2 ^ k)) / 2 ^ k = (of_nat n :: rat)"
    by (simp only: q round_half_even_int) simp
  have small: "\<not> (2 ^ 1024 \<le> (of_nat n :: rat))"
  proof -
    have "(of_nat n :: rat) < of_nat (2 ^ 53)" using assms by (simp only: of_nat_less_iff)
    also have "\<dots> \<le> 2 ^ 1024" by simp
    finally show ?thesis by simp
  qed
  show ?thesis
    using False small by (simp add: round_binary64_def Let_def p r del: max.bounded_iff)
qed

lemma round_binary64_above:
  "round_binary64 9007199254740993 = Finite 9007199254740992"
proof -
  have b: "bitlen 9007199254740993 = 54"
    using bitlen_twopow_add_eq [of 1 53] by simp
  have fl: "floor_log2 9007199254740993 = 53"
    by (simp add: floor_log2_def b)
  have f: "\<lfloor>(9007199254740993::rat) / 2\<rfloor> = 4503599627370496"
    by (rule floor_unique) simp_all
  show ?thesis
    by (simp add: round_binary64_def fl pow2_def round_half_even_def Let_def f)
qed

lemma is_digit_cases:
  assumes "is_digit c"
  shows "c \<noteq> CHR ''_'' \<and> c \<noteq> CHR ''-'' \<and> c \<noteq> CHR ''+'' \<and> c \<noteq> CHR ''.''
     \<and> c \<noteq> CHR ''e'' \<and> c \<noteq> CHR ''E'' \<and> c \<noteq> CHR '','' \<and> \<not> is_space c \<and> to_lower c = c
     \<and> c \<noteq> CHR ''i'' \<and> c \<noteq> CHR ''n'' \<and> c \<notin> set '' Ether''"
proof -
  from assms have "c = CHR ''0'' \<or> c = CHR ''1'' \<or> c = CHR ''2'' \<or> c = CHR ''3'' \<or> c = CHR ''4''
      \<or> c = CHR ''5'' \<or> c = CHR ''6'' \<or> c = CHR ''7'' \<or> c = CHR ''8'' \<or> c = CHR ''9''"
    by (simp add: is_digit_def)
  then show ?thesis
    by (elim disjE) (simp_all add: is_space_def to_lower_def)
qed

lemma underscores_ok_digits:
  "list_all is_digit ds \<Longrightarrow> prev \<noteq> Some (CHR ''_'') \<Longrightarrow> underscores_ok prev ds"
proof (induction ds arbitrary: prev)
  case Nil
  then show ?case by simp
next
  case (Cons c cs)
  then have "c \<noteq> CHR ''_''" by (simp add: is_digit_cases)
  with Cons show ?case by simp
qed

lemma takeWhile_digits:
  "list_all is_digit ds \<Longrightarrow> (\<And>c. is_digit c \<Longrightarrow> P c) \<Longrightarrow> takeWhile P ds = ds \<and> dropWhile P ds = []"
  by (induction ds) auto

lemma parse_decimal_digits:
  assumes "ds \<noteq> []" "list_all is_digit ds"
  shows "parse_decimal ds = Some (of_nat (dec_value ds))"
proof -
  have e: "takeWhile (\<lambda>c. c \<noteq> CHR ''e'' \<and> c \<noteq> CHR ''E'') ds = ds \<and>
           dropWhile (\<lambda>c. c \<noteq> CHR ''e'' \<and> c \<noteq> CHR ''E'') ds = []"
    using assms(2) by (rule takeWhile_digits) (simp add: is_digit_cases)
  have p: "takeWhile (\<lambda>c. c \<noteq> CHR ''.'') ds = ds \<and> dropWhile (\<lambda>c. c \<noteq> CHR ''.'') ds = []"
    using assms(2) by (rule takeWhile_digits) (simp add: is_digit_cases)
  show ?thesis
    using assms by (simp add: parse_decimal_def e p parse_exponent_def scale10_def)
qed

lemma py_float_digits:
  assumes "ds \<noteq> []" "list_all is_digit ds"
  shows "py_float ds = Inr (round_binary64 (of_nat (dec_value ds)))"
proof -
  obtain c cs where ds: "ds = c # cs" using assms(1) by (cases ds) auto
  have c: "is_digit c" using assms(2) ds by simp
  have l: "is_digit (last ds)" using assms by (simp add: list_all_iff)
  have u: "underscores_ok None ds" using assms(2) by (simp add: underscores_ok_digits)
  have f: "filter (\<lambda>c. c \<noteq> CHR ''_'') ds = ds"
    using assms(2) by (induction ds) (auto simp: is_digit_cases)
  have s1: "dropWhile is_space ds = ds" using ds c by (simp add: is_digit_cases)
  have s2: "dropWhile is_space (rev ds) = rev ds"
    using l assms(1) by (cases ds rule: rev_cases) (simp_all add: is_digit_cases)
  have sg: "split_sign ds = (False, ds)" using ds c by (simp add: split_sign_def is_digit_cases)
  have lo: "map to_lower ds = to_lower c # map to_lower cs" using ds by simp
  have k: "to_lower c = c" using c by (simp add: is_digit_cases)
  have ni: "map to_lower ds \<noteq> ''inf'' \<and> map to_lower ds \<noteq> ''infinity'' \<and> map to_lower ds \<noteq> ''nan''"
    using c by (auto simp: lo k is_digit_cases)
  show ?thesis
    using u ni by (simp add: py_float_def f s1 s2 sg parse_decimal_digits[OF assms])
qed

lemma py_strip_core:
  assumes "set p \<subseteq> set chars" "set q \<subseteq> set chars" "core \<noteq> []"
    "hd core \<notin> set chars" "last core \<notin> set chars"
  shows "py_strip chars (p @ core @ q) = core"
proof -
  have a: "dropWhile (\<lambda>c. c \<in> set chars) (p @ core @ q) = core @ q"
    using assms(1,3,4) by (cases core) (auto simp: dropWhile_append2 subset_iff)
  have b1: "dropWhile (\<lambda>c. c \<in> set chars) (rev q @ rev core) =
              dropWhile (\<lambda>c. c \<in> set chars) (rev core)"
    using assms(2) by (intro dropWhile_append2) auto
  have b2: "dropWhile (\<lambda>c. c \<in> set chars) (rev core) = rev core"
    using assms(3,5) by (cases core rule: rev_cases) simp_all
  note b = b1 [unfolded b2]
  show ?thesis by (simp add: py_strip_def a b)
qed

lemma digits_with_commas_ends:
  assumes "digits_with_commas n"
  shows "n \<noteq> [] \<and> hd n \<notin> set '' Ether'' \<and> last n \<notin> set '' Ether''"
proof -
  have ne: "n \<noteq> []"
    using assms by (cases n) (simp_all add: digits_with_commas_def)
  have outside: "c \<notin> set '' Ether''" if "c \<in> set n" for c
  proof -
    from assms that have "is_digit c \<or> c = CHR '',''"
      by (simp add: digits_with_commas_def list_all_iff)
    then show ?thesis
      using is_digit_cases [of c] by (elim disjE) simp_all
  qed
  from ne have "hd n \<in> set n" and "last n \<in> set n" by simp_all
  with ne outside show ?thesis by blast
qed

lemma digits_with_commas_replace:
  assumes "digits_with_commas n"
  shows "py_replace_empty (CHR '','') n \<noteq> [] \<and> list_all is_digit (py_replace_empty (CHR '','') n)"
proof -
  have "is_digit c" if "c \<in> set n" "c \<noteq> CHR '',''" for c
    using assms that by (simp add: digits_with_commas_def list_all_iff) blast
  then have all: "list_all is_digit (py_replace_empty (CHR '','') n)"
    by (simp add: py_replace_empty_def list_all_iff)
  from assms obtain d where d: "d \<in> set n" "is_digit d"
    by (auto simp: digits_with_commas_def list_ex_iff)
  from d(2) have "d \<noteq> CHR '',''" by (simp add: is_digit_cases)
  with d(1) have "d \<in> set (py_replace_empty (CHR '','') n)"
    by (simp add: py_replace_empty_def)
  then have "py_replace_empty (CHR '','') n \<noteq> []" by auto
  with all show ?thesis by simp
qed

lemma balance_lambda_core:
  assumes "set p \<subseteq> set '' Ether''" "set q \<subseteq> set '' Ether''" "digits_with_commas n"
  shows "balance_lambda (p @ n @ q) =
           Inr (round_binary64 (of_nat (dec_value (py_replace_empty (CHR '','') n))))"
proof -
  have "py_strip '' Ether'' (p @ n @ q) = n"
    using assms(1,2) digits_with_commas_ends[OF assms(3)] by (intro py_strip_core) simp_all
  then show ?thesis
    using digits_with_commas_replace[OF assms(3)] by (simp add: balance_lambda_def py_float_digits)
qed

lemma txn_count_lambda_value:
  assumes "digits_with_commas n"
  shows "txn_count_lambda n =
           Inr (round_binary64 (of_nat (dec_value (py_replace_empty (CHR '','') n))))"
  using digits_with_commas_replace[OF assms] by (simp add: txn_count_lambda_def py_float_digits)

lemma balance_lambda_exact:
  assumes "set p \<subseteq> set '' Ether''" "set q \<subseteq> set '' Ether''" "digits_with_commas n"
    "dec_value (py_replace_empty (CHR '','') n) < 2 ^ 53"
  shows "balance_lambda (p @ n @ q) =
           Inr (Finite (of_nat (dec_value (py_replace_empty (CHR '','') n))))"
  by (simp only: balance_lambda_core [OF assms(1-3)] round_binary64_exact [OF assms(4)])

lemma txn_count_lambda_exact:
  assumes "digits_with_commas n" "dec_value (py_replace_empty (CHR '','') n) < 2 ^ 53"
  shows "txn_count_lambda n =
           Inr (Finite (of_nat (dec_value (py_replace_empty (CHR '','') n))))"
  by (simp only: txn_count_lambda_value [OF assms(1)] round_binary64_exact [OF assms(2)])

text \<open>
  C5. For every balance text \<open>N Ether\<close> where \<open>N\<close> consists of digits and grouping
  commas, the balance lambda returns the binary64 number nearest to the value of the
  digits of \<open>N\<close>, and the transaction-count lambda does the same on \<open>N\<close>. Below \<open>2 ^ 53\<close>
  that number is the value itself, so \<open>12,345 Ether\<close> gives 12345. Above, it need not be:
  \<open>9,007,199,254,740,993\<close> gives 9007199254740992.
\<close>

theorem balance_normalizer_value:
  assumes "digits_with_commas n"
  shows "balance_lambda (n @ '' Ether'') =
           Inr (round_binary64 (of_nat (dec_value (py_replace_empty (CHR '','') n))))
       \<and> txn_count_lambda n =
           Inr (round_binary64 (of_nat (dec_value (py_replace_empty (CHR '','') n))))
       \<and> (dec_value (py_replace_empty (CHR '','') n) < 2 ^ 53 \<longrightarrow>
            balance_lambda (n @ '' Ether'') =
              Inr (Finite (of_nat (dec_value (py_replace_empty (CHR '','') n))))
            \<and> txn_count_lambda n =
              Inr (Finite (of_nat (dec_value (py_replace_empty (CHR '','') n)))))"
proof -
  have e: "set [] \<subseteq> set '' Ether''" and u: "set '' Ether'' \<subseteq> set '' Ether''" by simp_all
  have a: "balance_lambda (n @ '' Ether'') =
           Inr (round_binary64 (of_nat (dec_value (py_replace_empty (CHR '','') n))))"
    using balance_lambda_core [OF e u assms] by simp
  have b: "balance_lambda (n @ '' Ether'') =
              Inr (Finite (of_nat (dec_value (py_replace_empty (CHR '','') n))))"
    if "dec_value (py_replace_empty (CHR '','') n) < 2 ^ 53"
    using balance_lambda_exact [OF e u assms that] by simp
  show ?thesis
    using a b txn_count_lambda_value [OF assms] txn_count_lambda_exact [OF assms] by blast
qed

theorem balance_normalizer_value_witness:
  "digits_with_commas ''12,345''
   \<and> balance_lambda ''12,345 Ether'' = Inr (Finite 12345)
   \<and> txn_count_lambda ''12,345'' = Inr (Finite 12345)"
proof -
  have h: "digits_with_commas ''12,345''"
    by (simp add: digits_with_commas_def is_digit_def)
  have v: "dec_value (py_replace_empty (CHR '','') ''12,345'') = 12345"
    by (simp add: dec_value_def py_replace_empty_def digit_val_def)
  from balance_normalizer_value [OF h]
  have "dec_value (py_replace_empty (CHR '','') ''12,345'') < 2 ^ 53 \<longrightarrow>
            balance_lambda (''12,345'' @ '' Ether'') =
              Inr (Finite (of_nat (dec_value (py_replace_empty (CHR '','') ''12,345''))))
            \<and> txn_count_lambda ''12,345'' =
              Inr (Finite (of_nat (dec_value (py_replace_empty (CHR '','') ''12,345''))))"
    by blast
  then show ?thesis using h by (simp add: v)
qed

theorem balance_normalizer_inexact:
  "digits_with_commas ''9,007,199,254,740,993''
   \<and> dec_value (py_replace_empty (CHR '','') ''9,007,199,254,740,993'') = 9007199254740993
   \<and> balance_lambda ''9,007,199,254,740,993 Ether'' = Inr (Finite 9007199254740992)
   \<and> txn_count_lambda ''9,007,199,254,740,993'' = Inr (Finite 9007199254740992)
   \<and> balance_lambda ''9,007,199,254,740,993 Ether'' \<noteq> Inr (Finite 9007199254740993)"
proof -
  have h: "digits_with_commas ''9,007,199,254,740,993''"
    by (simp add: digits_with_commas_def is_digit_def)
  have v: "dec_value (py_replace_empty (CHR '','') ''9,007,199,254,740,993'') = 9007199254740993"
    by (simp add: dec_value_def py_replace_empty_def digit_val_def)
  have e: "set [] \<subseteq> set '' Ether''" and u: "set '' Ether'' \<subseteq> set '' Ether''" by simp_all
  have a: "balance_lambda ''9,007,199,254,740,993 Ether'' = Inr (Finite 9007199254740992)"
    using balance_lambda_core [OF e u h] by (simp add: v round_binary64_above)
  have b: "txn_count_lambda ''9,007,199,254,740,993'' = Inr (Finite 9007199254740992)"
    using txn_count_lambda_value [OF h] by (simp add: v round_binary64_above)
  show ?thesis using h v a b by simp
qed

text \<open>
  C10. The unit label is removed as a set of characters at both ends, not as the literal
  suffix: any prefix and any suffix made of the characters of \<open>" Ether"\<close> around the
  digits are dropped and the number of the digit core is returned (the binary64 number
  nearest to it, the value itself below \<open>2 ^ 53\<close>), so \<open>Ether 5\<close> and \<open>5 rethE\<close> both give 5.
\<close>

theorem balance_strip_is_charset:
  assumes "set p \<subseteq> set '' Ether''" "set q \<subseteq> set '' Ether''" "digits_with_commas n"
  shows "balance_lambda (p @ n @ q) =
           Inr (round_binary64 (of_nat (dec_value (py_replace_empty (CHR '','') n))))
       \<and> (dec_value (py_replace_empty (CHR '','') n) < 2 ^ 53 \<longrightarrow>
            balance_lambda (p @ n @ q) =
              Inr (Finite (of_nat (dec_value (py_replace_empty (CHR '','') n)))))"
  using balance_lambda_core [OF assms] balance_lambda_exact [OF assms] by blast

theorem balance_strip_is_charset_witness:
  "set ''Ether '' \<subseteq> set '' Ether'' \<and> set '' rethE'' \<subseteq> set '' Ether'' \<and> digits_with_commas ''5''
   \<and> balance_lambda ''Ether 5'' = Inr (Finite 5)
   \<and> balance_lambda ''5 rethE'' = Inr (Finite 5)"
proof -
  have h: "digits_with_commas ''5''"
    by (simp add: digits_with_commas_def is_digit_def)
  have p: "set ''Ether '' \<subseteq> set '' Ether''" by simp
  have q: "set '' rethE'' \<subseteq> set '' Ether''" by simp
  have e: "set [] \<subseteq> set '' Ether''" by simp
  have v: "dec_value (py_replace_empty (CHR '','') ''5'') = 5"
    by (simp add: dec_value_def py_replace_empty_def digit_val_def)
  from balance_strip_is_charset [OF p e h]
  have "dec_value (py_replace_empty (CHR '','') ''5'') < 2 ^ 53 \<longrightarrow>
          balance_lambda (''Ether '' @ ''5'' @ []) =
            Inr (Finite (of_nat (dec_value (py_replace_empty (CHR '','') ''5''))))"
    by (rule conjunct2)
  then have a: "balance_lambda ''Ether 5'' = Inr (Finite 5)"
    by (simp add: v)
  from balance_strip_is_charset [OF e q h]
  have "dec_value (py_replace_empty (CHR '','') ''5'') < 2 ^ 53 \<longrightarrow>
          balance_lambda ([] @ ''5'' @ '' rethE'') =
            Inr (Finite (of_nat (dec_value (py_replace_empty (CHR '','') ''5''))))"
    by (rule conjunct2)
  then have b: "balance_lambda ''5 rethE'' = Inr (Finite 5)"
    by (simp add: v)
  show ?thesis using h a b by simp
qed

section \<open>Exchange table builder\<close>

lemma apply_column_Inr:
  "apply_column f cs = Inr vs \<Longrightarrow>
     length vs = length cs \<and> (\<forall>i<length cs. \<exists>s. cs ! i = Some s \<and> f s = Inr (vs ! i))"
proof (induction cs arbitrary: vs)
  case Nil
  then show ?case by simp
next
  case (Cons c cs)
  show ?case
  proof (cases c)
    case None
    with Cons.prems show ?thesis by simp
  next
    case (Some s)
    with Cons.prems obtain v ws where v: "f s = Inr v" and ws: "apply_column f cs = Inr ws"
      and vs: "vs = v # ws"
      by (auto split: sum.splits)
    from Cons.IH [OF ws] have ih: "length ws = length cs"
      "\<forall>i<length cs. \<exists>s. cs ! i = Some s \<and> f s = Inr (ws ! i)" by simp_all
    show ?thesis
    proof (intro conjI allI impI)
      show "length vs = length (c # cs)" using ih(1) vs by simp
    next
      fix i assume "i < length (c # cs)"
      then show "\<exists>s. (c # cs) ! i = Some s \<and> f s = Inr (vs ! i)"
        using ih(2) v vs Some by (cases i) simp_all
    qed
  qed
qed

lemma fold_max_ge: "a \<le> fold max xs (a::nat)"
proof (induction xs arbitrary: a)
  case Nil
  then show ?case by simp
next
  case (Cons x xs)
  have "a \<le> max x a" by simp
  also have "\<dots> \<le> fold max xs (max x a)" by (rule Cons.IH)
  finally show ?case by simp
qed

lemma fold_max_mem: "x \<in> set xs \<Longrightarrow> x \<le> fold max xs (a::nat)"
proof (induction xs arbitrary: a)
  case Nil
  then show ?case by simp
next
  case (Cons y ys)
  show ?case
  proof (cases "x = y")
    case True
    have "y \<le> max y a" by simp
    also have "\<dots> \<le> fold max ys (max y a)" by (rule fold_max_ge)
    finally show ?thesis using True by simp
  next
    case False
    with Cons show ?thesis by simp
  qed
qed

lemma data_frame4_Inr:
  assumes "data_frame4 data = Inr df"
  shows "df = map (pad_row 4) data \<and> (\<forall>r\<in>set data. length r \<le> 4)"
proof (cases "data = []")
  case True
  with assms show ?thesis by (simp add: data_frame4_def)
next
  case False
  with assms have m: "fold max (map length data) 0 = 4" and df: "df = map (pad_row 4) data"
    by (auto simp: data_frame4_def split: if_splits)
  have "length r \<le> 4" if "r \<in> set data" for r
    using fold_max_mem [of "length r" "map length data" 0] that m by simp
  with df show ?thesis by simp
qed

lemma pad_row_nth:
  "length r \<le> 4 \<Longrightarrow> k < 4 \<Longrightarrow> pad_row 4 r ! k = (if k < length r then Some (r ! k) else None)"
  by (simp add: pad_row_def nth_append)


lemma format_exchange_data_Inr:
  assumes "format_exchange_data rows = Inr df"
  shows "length df = length rows - 1"
    and "\<forall>i<length df. length (rows ! Suc i) = 4
            \<and> address (df ! i) = rows ! Suc i ! 0 \<and> name (df ! i) = rows ! Suc i ! 1
            \<and> balance_lambda (rows ! Suc i ! 2) = Inr (balance (df ! i))
            \<and> txn_count_lambda (rows ! Suc i ! 3) = Inr (txn_count (df ! i))"
proof -
  let ?data = "drop 1 rows"
  from assms obtain frame bs ts where
    frame: "data_frame4 ?data = Inr frame" and
    bs: "apply_column balance_lambda (map (\<lambda>r. r ! 2) frame) = Inr bs" and
    ts: "apply_column txn_count_lambda (map (\<lambda>r. r ! 3) frame) = Inr ts" and
    df: "df = map (\<lambda>(r, b, t). \<lparr>address = cell_text (r ! 0), name = cell_text (r ! 1),
                     balance = b, txn_count = t\<rparr>) (zip frame (zip bs ts))"
    by (auto simp: format_exchange_data_def split: sum.splits)
  from data_frame4_Inr [OF frame] have fr: "frame = map (pad_row 4) ?data"
    and short: "\<forall>r\<in>set ?data. length r \<le> 4" by simp_all
  from apply_column_Inr [OF bs] have lb: "length bs = length frame"
    and vb: "\<forall>i<length frame. \<exists>s. frame ! i ! 2 = Some s \<and> balance_lambda s = Inr (bs ! i)"
    by simp_all
  from apply_column_Inr [OF ts] have lt: "length ts = length frame"
    and vt: "\<forall>i<length frame. \<exists>s. frame ! i ! 3 = Some s \<and> txn_count_lambda s = Inr (ts ! i)"
    by simp_all
  have lf: "length frame = length rows - 1" using fr by simp
  show len: "length df = length rows - 1" using df lb lt lf by simp
  show "\<forall>i<length df. length (rows ! Suc i) = 4
            \<and> address (df ! i) = rows ! Suc i ! 0 \<and> name (df ! i) = rows ! Suc i ! 1
            \<and> balance_lambda (rows ! Suc i ! 2) = Inr (balance (df ! i))
            \<and> txn_count_lambda (rows ! Suc i ! 3) = Inr (txn_count (df ! i))"
  proof (intro allI impI)
    fix i assume "i < length df"
    then have i: "i < length frame" "i < length ?data" "Suc i < length rows"
      using len lf fr by simp_all
    let ?r = "rows ! Suc i"
    have r: "?data ! i = ?r" using i(3) by simp
    have le: "length ?r \<le> 4" using short i(2) r by (metis nth_mem)
    have fi: "frame ! i = pad_row 4 ?r" using fr i(2) r by simp
    from vt i(1) obtain s3 where s3: "frame ! i ! 3 = Some s3" "txn_count_lambda s3 = Inr (ts ! i)"
      by blast
    from vb i(1) obtain s2 where s2: "frame ! i ! 2 = Some s2" "balance_lambda s2 = Inr (bs ! i)"
      by blast
    have four: "length ?r = 4"
    proof (rule ccontr)
      assume "length ?r \<noteq> 4"
      with le have "\<not> 3 < length ?r" by simp
      then have "pad_row 4 ?r ! 3 = None" using le by (simp add: pad_row_nth)
      with s3(1) fi show False by simp
    qed
    have cell: "frame ! i ! k = Some (?r ! k)" if "k < 4" for k
      using that four fi by (simp add: pad_row_nth)
    have e3: "s3 = ?r ! 3" using s3(1) cell [of 3] by simp
    have e2: "s2 = ?r ! 2" using s2(1) cell [of 2] by simp
    have dfi: "df ! i = \<lparr>address = cell_text (frame ! i ! 0), name = cell_text (frame ! i ! 1),
                     balance = bs ! i, txn_count = ts ! i\<rparr>"
      using df i(1) lb lt by simp
    show "length ?r = 4
            \<and> address (df ! i) = ?r ! 0 \<and> name (df ! i) = ?r ! 1
            \<and> balance_lambda (?r ! 2) = Inr (balance (df ! i))
            \<and> txn_count_lambda (?r ! 3) = Inr (txn_count (df ! i))"
      using four s2(2) s3(2) e2 e3 cell [of 0] cell [of 1] by (simp add: dfi cell_text_def)
  qed
qed

lemma sample_balance_2500: "balance_lambda ''2,500 Ether'' = Inr (Finite 2500)"
proof -
  have h: "digits_with_commas ''2,500''" by (simp add: digits_with_commas_def is_digit_def)
  have v: "dec_value (py_replace_empty (CHR '','') ''2,500'') = 2500"
    by (simp add: dec_value_def py_replace_empty_def digit_val_def)
  show ?thesis using balance_lambda_exact [of "[]" "'' Ether''" "''2,500''"] h by (simp add: v)
qed
lemma sample_balance_1000: "balance_lambda ''1,000 Ether'' = Inr (Finite 1000)"
proof -
  have h: "digits_with_commas ''1,000''" by (simp add: digits_with_commas_def is_digit_def)
  have v: "dec_value (py_replace_empty (CHR '','') ''1,000'') = 1000"
    by (simp add: dec_value_def py_replace_empty_def digit_val_def)
  show ?thesis using balance_lambda_exact [of "[]" "'' Ether''" "''1,000''"] h by (simp add: v)
qed
lemma sample_txn_count: "txn_count_lambda ''500,000'' = Inr (Finite 500000)"
proof -
  have h: "digits_with_commas ''500,000''" by (simp add: digits_with_commas_def is_digit_def)
  have v: "dec_value (py_replace_empty (CHR '','') ''500,000'') = 500000"
    by (simp add: dec_value_def py_replace_empty_def digit_val_def)
  show ?thesis using txn_count_lambda_exact [OF h] by (simp add: v)
qed
lemma sample_page_table: "format_exchange_data [[''Address'', ''Name Tag''],
      [''0xA'', ''Binance'', ''2,500 Ether'', ''500,000''],
      [''0xB'', ''Kraken'', ''1,000 Ether'', ''500,000'']] = Inr [\<lparr>address = ''0xA'', name = ''Binance'', balance = Finite 2500, txn_count = Finite 500000\<rparr>,
          \<lparr>address = ''0xB'', name = ''Kraken'', balance = Finite 1000, txn_count = Finite 500000\<rparr>]"
  by (simp add: format_exchange_data_def data_frame4_def pad_row_def cell_text_def sample_balance_2500 sample_balance_1000 sample_txn_count)

text \<open>
  C6. The builder drops the first row whatever it holds (two inputs that differ only in
  their first row give the same result), and whenever it returns a table, the table has
  one record per remaining row, in order: the row has four cells, the first two are the
  address and the name, and the balance and the transaction count are the normalized
  third and fourth cells. A header followed by two data rows gives two records.
\<close>

theorem format_exchange_data_rows:
  "format_exchange_data (h # rest) = format_exchange_data (h' # rest)
   \<and> (format_exchange_data rows = Inr df \<longrightarrow>
        length df = length rows - 1
        \<and> (\<forall>i<length df. length (rows ! Suc i) = 4
            \<and> address (df ! i) = rows ! Suc i ! 0 \<and> name (df ! i) = rows ! Suc i ! 1
            \<and> balance_lambda (rows ! Suc i ! 2) = Inr (balance (df ! i))
            \<and> txn_count_lambda (rows ! Suc i ! 3) = Inr (txn_count (df ! i))))"
proof (intro conjI impI)
  show "format_exchange_data (h # rest) = format_exchange_data (h' # rest)"
    by (simp add: format_exchange_data_def)
qed (simp_all add: format_exchange_data_Inr)

theorem format_exchange_data_rows_witness:
  "format_exchange_data
     [[''Address'', ''Name Tag''],
      [''0xA'', ''Binance'', ''2,500 Ether'', ''500,000''],
      [''0xB'', ''Kraken'', ''1,000 Ether'', ''500,000'']] =
     Inr [\<lparr>address = ''0xA'', name = ''Binance'', balance = Finite 2500, txn_count = Finite 500000\<rparr>,
          \<lparr>address = ''0xB'', name = ''Kraken'', balance = Finite 1000, txn_count = Finite 500000\<rparr>]
   \<and> length [\<lparr>address = ''0xA'', name = ''Binance'', balance = Finite 2500, txn_count = Finite 500000\<rparr>,
          \<lparr>address = ''0xB'', name = ''Kraken'', balance = Finite 1000, txn_count = Finite 500000\<rparr>] =
       length [[''Address'', ''Name Tag''],
          [''0xA'', ''Binance'', ''2,500 Ether'', ''500,000''],
          [''0xB'', ''Kraken'', ''1,000 Ether'', ''500,000'']] - 1
   \<and> format_exchange_data
        [[''Address'', ''Name Tag''], [''0xA'', ''Binance'', ''2,500 Ether'', ''500,000'']] =
      format_exchange_data [[], [''0xA'', ''Binance'', ''2,500 Ether'', ''500,000'']]"
proof -
  let ?rows = "[[''Address'', ''Name Tag''],
      [''0xA'', ''Binance'', ''2,500 Ether'', ''500,000''],
      [''0xB'', ''Kraken'', ''1,000 Ether'', ''500,000'']]"
  let ?df = "[\<lparr>address = ''0xA'', name = ''Binance'', balance = Finite 2500, txn_count = Finite 500000\<rparr>,
          \<lparr>address = ''0xB'', name = ''Kraken'', balance = Finite 1000, txn_count = Finite 500000\<rparr>]"
  have ev: "format_exchange_data ?rows = Inr ?df"
    by (rule sample_page_table)
  note t = format_exchange_data_rows
    [of "[''Address'', ''Name Tag'']" "[[''0xA'', ''Binance'', ''2,500 Ether'', ''500,000'']]" "[]"
        ?rows ?df]
  from t have same: "format_exchange_data
        [[''Address'', ''Name Tag''], [''0xA'', ''Binance'', ''2,500 Ether'', ''500,000'']] =
      format_exchange_data [[], [''0xA'', ''Binance'', ''2,500 Ether'', ''500,000'']]"
    by (rule conjunct1)
  from t have imp: "format_exchange_data ?rows = Inr ?df \<longrightarrow> length ?df = length ?rows - 1 \<and>
       (\<forall>i<length ?df. length (?rows ! Suc i) = 4
            \<and> address (?df ! i) = ?rows ! Suc i ! 0 \<and> name (?df ! i) = ?rows ! Suc i ! 1
            \<and> balance_lambda (?rows ! Suc i ! 2) = Inr (balance (?df ! i))
            \<and> txn_count_lambda (?rows ! Suc i ! 3) = Inr (txn_count (?df ! i)))"
    by (rule conjunct2)
  from imp ev have "length ?df = length ?rows - 1 \<and>
       (\<forall>i<length ?df. length (?rows ! Suc i) = 4
            \<and> address (?df ! i) = ?rows ! Suc i ! 0 \<and> name (?df ! i) = ?rows ! Suc i ! 1
            \<and> balance_lambda (?rows ! Suc i ! 2) = Inr (balance (?df ! i))
            \<and> txn_count_lambda (?rows ! Suc i ! 3) = Inr (txn_count (?df ! i)))"
    by (rule mp)
  then have len: "length ?df = length ?rows - 1" by (rule conjunct1)
  show ?thesis
    by (intro conjI) (rule ev, rule len, rule same)
qed

section \<open>Exchange scraper: pagination\<close>

lemma scrape_loop_full:
  "full_page site ps p \<Longrightarrow>
     scrape_loop site ps p sent exs =
     scrape_loop site ps (p + 1) (sent @ [(p, ps)]) (exs @ [page_records site ps p])"
  by (subst scrape_loop.simps) (auto simp: full_page_def page_records_def split: sum.splits)

lemma scrape_loop_not_full:
  "\<not> full_page site ps p \<Longrightarrow>
     scrape_loop site ps p sent exs = Some (sent @ [(p, ps)], stop_result site ps p exs)"
  by (subst scrape_loop.simps) (auto simp: full_page_def stop_result_def split: sum.splits)


lemma scrape_loop_run:
  assumes "a \<le> k" "\<forall>p. a \<le> p \<and> p < k \<longrightarrow> full_page site ps p"
  shows "scrape_loop site ps a sent exs =
           scrape_loop site ps k (sent @ map (\<lambda>p. (p, ps)) [a..k - 1])
             (exs @ map (page_records site ps) [a..k - 1])"
  using assms
proof (induction "nat (k - a)" arbitrary: a sent exs)
  case 0
  then have "a = k" by simp
  then show ?case by simp
next
  case (Suc n)
  then have lt: "a < k" and full: "full_page site ps a" by simp_all
  have n: "n = nat (k - (a + 1))" using Suc.hyps(2) by simp
  have rest: "\<forall>p. a + 1 \<le> p \<and> p < k \<longrightarrow> full_page site ps p" using Suc.prems(2) by simp
  have up: "[a..k - 1] = a # [a + 1..k - 1]" using lt by (simp add: upto_rec1)
  have "scrape_loop site ps a sent exs =
          scrape_loop site ps (a + 1) (sent @ [(a, ps)]) (exs @ [page_records site ps a])"
    using full by (rule scrape_loop_full)
  also have "\<dots> = scrape_loop site ps k ((sent @ [(a, ps)]) @ map (\<lambda>p. (p, ps)) [a + 1..k - 1])
             ((exs @ [page_records site ps a]) @ map (page_records site ps) [a + 1..k - 1])"
    using lt rest by (intro Suc.hyps(1) [OF n]) simp_all
  finally show ?case by (simp add: up)
qed

lemma scrape_loop_stop:
  assumes "a \<le> k" "\<forall>p. a \<le> p \<and> p < k \<longrightarrow> full_page site ps p" "\<not> full_page site ps k"
  shows "scrape_loop site ps a sent exs =
           Some (sent @ map (\<lambda>p. (p, ps)) [a..k],
                 stop_result site ps k (exs @ map (page_records site ps) [a..k - 1]))"
proof -
  have up: "[a..k] = [a..k - 1] @ [k]" using assms(1) by (simp add: upto_rec2)
  show ?thesis
    by (simp add: scrape_loop_run [OF assms(1,2)] scrape_loop_not_full [OF assms(3)] up)
qed

lemma scrape_loop_Some_stops:
  assumes run: "scrape_loop site ps a sent exs = Some y"
  shows "\<exists>k\<ge>a. \<not> full_page site ps k"
proof (rule scrape_loop.raw_induct
    [where P = "\<lambda>site ps a sent exs y. \<exists>k\<ge>a. \<not> full_page site ps k", OF _ run], goal_cases)
  case (1 loop site ps a sent exs y)
  show ?case
  proof (cases "full_page site ps a")
    case False
    then show ?thesis by (intro exI [of _ a]) simp
  next
    case True
    then obtain rows df where "site a ps = Inr rows" "2 < length rows"
      "format_exchange_data rows = Inr df"
      by (auto simp: full_page_def split: sum.splits)
    with 1(2) have "loop site ps (a + 1) (sent @ [(a, ps)]) (exs @ [df]) = Some y" by simp
    from 1(1) [OF this] obtain k where "a + 1 \<le> k" "\<not> full_page site ps k" by blast
    then show ?thesis by (intro exI [of _ k]) simp
  qed
qed

lemma first_stop_exists:
  "a \<le> k0 \<Longrightarrow> \<not> full_page site ps k0 \<Longrightarrow>
     \<exists>k. a \<le> k \<and> \<not> full_page site ps k \<and> (\<forall>p. a \<le> p \<and> p < k \<longrightarrow> full_page site ps p)"
proof (induction "nat (k0 - a)" arbitrary: k0 rule: less_induct)
  case less
  show ?case
  proof (cases "\<forall>p. a \<le> p \<and> p < k0 \<longrightarrow> full_page site ps p")
    case True
    with less.prems show ?thesis by blast
  next
    case False
    then obtain p where p: "a \<le> p" "p < k0" "\<not> full_page site ps p" by blast
    then have "nat (p - a) < nat (k0 - a)" by simp
    from less.hyps [OF this p(1) p(3)] show ?thesis .
  qed
qed


lemma short_page_stop:
  "short_page site ps k \<Longrightarrow> \<not> full_page site ps k \<and> stop_result site ps k exs = Inr exs"
  by (auto simp: short_page_def full_page_def stop_result_def split: sum.splits)

lemma stop_result_Inr:
  "\<not> full_page site ps k \<Longrightarrow> stop_result site ps k exs0 = Inr exs \<Longrightarrow>
     exs = exs0 \<and> short_page site ps k"
  by (auto simp: short_page_def full_page_def stop_result_def split: sum.splits if_splits)

lemma scrape_exchanges_stop:
  assumes "1 \<le> k" "\<forall>p. 1 \<le> p \<and> p < k \<longrightarrow> full_page site 100 p" "\<not> full_page site 100 k"
  shows "scrape_exchanges site =
           Some (map (\<lambda>p. (p, 100)) [1..k],
                 case stop_result site 100 k (map (page_records site 100) [1..k - 1]) of
                   Inl e \<Rightarrow> Inl e | Inr exs \<Rightarrow> pd_concat exs)"
  using scrape_loop_stop [OF assms, of "[]" "[]"]
  by (simp add: scrape_exchanges_def split: sum.splits)

lemma format_addresses:
  assumes "format_exchange_data rows = Inr df"
  shows "map address df = map (\<lambda>r. r ! 0) (drop 1 rows)"
proof (rule nth_equalityI)
  show "length (map address df) = length (map (\<lambda>r. r ! 0) (drop 1 rows))"
    using format_exchange_data_Inr(1) [OF assms] by simp
next
  fix i assume "i < length (map address df)"
  then have i: "i < length df" by simp
  then have s: "Suc i < length rows" using format_exchange_data_Inr(1) [OF assms] by simp
  then have d: "drop 1 rows ! i = rows ! Suc i" by (simp add: nth_drop)
  have a: "address (df ! i) = rows ! Suc i ! 0"
    using i format_exchange_data_Inr(2) [OF assms] by blast
  have "map (\<lambda>r. r ! 0) (drop 1 rows) ! i = drop 1 rows ! i ! 0"
    using s by (intro nth_map) simp
  with i a d show "map address df ! i = map (\<lambda>r. r ! 0) (drop 1 rows) ! i"
    by simp
qed

lemma page_addresses:
  "full_page site ps p \<Longrightarrow>
     map address (page_records site ps p) = map (\<lambda>r. r ! 0) (drop 1 (page_rows site ps p))"
  by (auto simp: full_page_def page_records_def page_rows_def format_addresses split: sum.splits)


lemma stub_three_pages_full: "\<forall>p. 1 \<le> p \<and> p < 4 \<longrightarrow> full_page stub_three_pages 100 p"
  by (simp add: full_page_def stub_three_pages_def sample_page_table)

lemma stub_three_pages_short: "short_page stub_three_pages 100 4"
  by (simp add: short_page_def stub_three_pages_def)

lemma stub_three_pages_records:
  "map (page_records stub_three_pages 100) [1..3] =
     [[\<lparr>address = ''0xA'', name = ''Binance'', balance = Finite 2500, txn_count = Finite 500000\<rparr>,
       \<lparr>address = ''0xB'', name = ''Kraken'', balance = Finite 1000, txn_count = Finite 500000\<rparr>],
      [\<lparr>address = ''0xA'', name = ''Binance'', balance = Finite 2500, txn_count = Finite 500000\<rparr>,
       \<lparr>address = ''0xB'', name = ''Kraken'', balance = Finite 1000, txn_count = Finite 500000\<rparr>],
      [\<lparr>address = ''0xA'', name = ''Binance'', balance = Finite 2500, txn_count = Finite 500000\<rparr>,
       \<lparr>address = ''0xB'', name = ''Kraken'', balance = Finite 1000, txn_count = Finite 500000\<rparr>]]"
  by (simp add: upto.simps page_records_def stub_three_pages_def sample_page_table)

text \<open>
  C9. When the first listing page already yields two rows or fewer, the scraper issues
  that one request and then raises: the concatenation is applied to an empty list of
  fragments. It does not return an empty table.
\<close>

theorem scrape_exchanges_first_page_short:
  assumes "short_page site 100 1"
  shows "scrape_exchanges site = Some ([(1, 100)], Inl NoObjectsToConcatenate)"
proof -
  have nf: "\<not> full_page site 100 1" and st: "stop_result site 100 1 [] = Inr []"
    using short_page_stop [OF assms] by simp_all
  have u1: "[1..(1::int)] = [1]" and u0: "[1..(1::int) - 1] = []" by (simp_all add: upto.simps)
  have none: "\<forall>p::int. 1 \<le> p \<and> p < 1 \<longrightarrow> full_page site 100 p" by auto
  have one: "(1::int) \<le> 1" by simp
  from scrape_exchanges_stop [OF one none nf] show ?thesis
    by (simp add: u1 u0 st pd_concat_def)
qed

theorem scrape_exchanges_first_page_short_witness:
  "short_page (\<lambda>p page_limit. Inr [[''Address'', ''Name Tag''], [''No entries'']]) 100 1
   \<and> scrape_exchanges (\<lambda>p page_limit. Inr [[''Address'', ''Name Tag''], [''No entries'']]) =
       Some ([(1, 100)], Inl NoObjectsToConcatenate)"
proof -
  have h: "short_page (\<lambda>p page_limit. Inr [[''Address'', ''Name Tag''], [''No entries'']]) 100 1"
    by (simp add: short_page_def)
  from scrape_exchanges_first_page_short [OF h] h show ?thesis by simp
qed

text \<open>
  C3. When the pages before page \<open>k\<close> each yield more than two rows that the builder
  accepts and page \<open>k\<close> yields two rows or fewer, the scraper requests exactly the pages
  1 to \<open>k\<close> and returns exactly the fragments of the pages 1 to \<open>k - 1\<close>, whatever any later
  page holds. On three full pages followed by a two-row page it issues four requests and
  returns the records of the first three pages.
\<close>

theorem scrape_exchanges_stops_at_short_page:
  assumes "2 \<le> k" "\<forall>p. 1 \<le> p \<and> p < k \<longrightarrow> full_page site 100 p" "short_page site 100 k"
  shows "scrape_exchanges site =
           Some (map (\<lambda>p. (p, 100)) [1..k],
                 Inr (concat (map (page_records site 100) [1..k - 1])))"
proof -
  have nf: "\<not> full_page site 100 k"
    and st: "stop_result site 100 k (map (page_records site 100) [1..k - 1]) =
               Inr (map (page_records site 100) [1..k - 1])"
    using short_page_stop [OF assms(3)] by simp_all
  have k: "1 \<le> k" using assms(1) by simp
  from scrape_exchanges_stop [OF k assms(2) nf] assms(1) show ?thesis
    by (simp add: st pd_concat_def)
qed

theorem scrape_exchanges_stops_at_short_page_witness:
  "(2::int) \<le> 4 \<and> short_page stub_three_pages 100 4
   \<and> full_page stub_three_pages 100 1 \<and> full_page stub_three_pages 100 2
   \<and> full_page stub_three_pages 100 3
   \<and> scrape_exchanges stub_three_pages =
       Some ([(1, 100), (2, 100), (3, 100), (4, 100)],
         Inr [\<lparr>address = ''0xA'', name = ''Binance'', balance = Finite 2500, txn_count = Finite 500000\<rparr>,
              \<lparr>address = ''0xB'', name = ''Kraken'', balance = Finite 1000, txn_count = Finite 500000\<rparr>,
              \<lparr>address = ''0xA'', name = ''Binance'', balance = Finite 2500, txn_count = Finite 500000\<rparr>,
              \<lparr>address = ''0xB'', name = ''Kraken'', balance = Finite 1000, txn_count = Finite 500000\<rparr>,
              \<lparr>address = ''0xA'', name = ''Binance'', balance = Finite 2500, txn_count = Finite 500000\<rparr>,
              \<lparr>address = ''0xB'', name = ''Kraken'', balance = Finite 1000, txn_count = Finite 500000\<rparr>])"
proof -
  have two: "(2::int) \<le> 4" by simp
  have u: "[1..(4::int)] = [1, 2, 3, 4]" by (simp add: upto.simps)
  note run = scrape_exchanges_stops_at_short_page
    [OF two stub_three_pages_full stub_three_pages_short]
  have full: "full_page stub_three_pages 100 1" "full_page stub_three_pages 100 2"
    "full_page stub_three_pages 100 3"
    using stub_three_pages_full by simp_all
  show ?thesis
    using full stub_three_pages_short run by (simp add: u stub_three_pages_records)
qed

section \<open>Exchange scraper: order of the table\<close>

lemma scrape_exchanges_Some:
  assumes "scrape_exchanges site = Some (sent, res)"
  obtains k where "1 \<le> k" "\<forall>p. 1 \<le> p \<and> p < k \<longrightarrow> full_page site 100 p"
    "\<not> full_page site 100 k" "sent = map (\<lambda>p. (p, 100)) [1..k]"
    "res = (case stop_result site 100 k (map (page_records site 100) [1..k - 1]) of
              Inl e \<Rightarrow> Inl e | Inr exs \<Rightarrow> pd_concat exs)"
proof -
  from assms obtain y where "scrape_loop site 100 1 [] [] = Some y"
    by (auto simp: scrape_exchanges_def split: option.splits)
  from scrape_loop_Some_stops [OF this] obtain k0 where "1 \<le> k0" "\<not> full_page site 100 k0"
    by blast
  from first_stop_exists [OF this] obtain k where k: "1 \<le> k" "\<not> full_page site 100 k"
    "\<forall>p. 1 \<le> p \<and> p < k \<longrightarrow> full_page site 100 p" by blast
  from scrape_exchanges_stop [OF k(1) k(3) k(2)] assms
  have "sent = map (\<lambda>p. (p, 100)) [1..k]"
    "res = (case stop_result site 100 k (map (page_records site 100) [1..k - 1]) of
              Inl e \<Rightarrow> Inl e | Inr exs \<Rightarrow> pd_concat exs)"
    by simp_all
  with k show ?thesis by (intro that [of k]) simp_all
qed

lemma scrape_exchanges_None:
  assumes "scrape_exchanges site = None" "1 \<le> p"
  shows "full_page site 100 p"
proof (rule ccontr)
  assume "\<not> full_page site 100 p"
  from first_stop_exists [OF assms(2) this] obtain k where k: "1 \<le> k" "\<not> full_page site 100 k"
    "\<forall>p. 1 \<le> p \<and> p < k \<longrightarrow> full_page site 100 p" by blast
  from scrape_exchanges_stop [OF k(1) k(3) k(2)] assms(1) show False by simp
qed

lemma scrape_exchanges_table:
  assumes "scrape_exchanges site = Some (sent, Inr table)"
  shows "table = concat (map (page_records site 100) [1..int (length sent) - 1])"
    and "map address table =
           concat (map (\<lambda>p. map (\<lambda>r. r ! 0) (drop 1 (page_rows site 100 p)))
             [1..int (length sent) - 1])"
proof -
  from scrape_exchanges_Some [OF assms] obtain k where k: "1 \<le> k"
    "\<forall>p. 1 \<le> p \<and> p < k \<longrightarrow> full_page site 100 p" "\<not> full_page site 100 k"
    "sent = map (\<lambda>p. (p, 100)) [1..k]"
    "Inr table = (case stop_result site 100 k (map (page_records site 100) [1..k - 1]) of
              Inl e \<Rightarrow> Inl e | Inr exs \<Rightarrow> pd_concat exs)"
    by blast
  have len: "int (length sent) = k" using k(1,4) by simp
  from k(5) obtain exs where exs: "stop_result site 100 k (map (page_records site 100) [1..k - 1]) = Inr exs"
    and cat: "pd_concat exs = Inr table"
    by (auto split: sum.splits)
  from stop_result_Inr [OF k(3) exs] have e: "exs = map (page_records site 100) [1..k - 1]" by simp
  from cat have t: "table = concat exs" by (auto simp: pd_concat_def split: if_splits)
  show a: "table = concat (map (page_records site 100) [1..int (length sent) - 1])"
    using t e len by simp
  have eq: "map (\<lambda>p. map address (page_records site 100 p)) [1..k - 1] =
        map (\<lambda>p. map (\<lambda>r. r ! 0) (drop 1 (page_rows site 100 p))) [1..k - 1]"
    using k(2) by (intro map_cong refl page_addresses) simp
  have "map address table = concat (map (map address) exs)"
    using t by (simp only: map_concat)
  also have "map (map address) exs = map (\<lambda>p. map address (page_records site 100 p)) [1..k - 1]"
    by (simp only: e map_map comp_def)
  also note eq
  finally show "map address table =
           concat (map (\<lambda>p. map (\<lambda>r. r ! 0) (drop 1 (page_rows site 100 p)))
             [1..int (length sent) - 1])"
    by (simp only: len)
qed

lemma stub_three_pages_run:
  "scrape_exchanges stub_three_pages =
     Some ([(1, 100), (2, 100), (3, 100), (4, 100)],
           Inr [\<lparr>address = ''0xA'', name = ''Binance'', balance = Finite 2500, txn_count = Finite 500000\<rparr>,
              \<lparr>address = ''0xB'', name = ''Kraken'', balance = Finite 1000, txn_count = Finite 500000\<rparr>,
              \<lparr>address = ''0xA'', name = ''Binance'', balance = Finite 2500, txn_count = Finite 500000\<rparr>,
              \<lparr>address = ''0xB'', name = ''Kraken'', balance = Finite 1000, txn_count = Finite 500000\<rparr>,
              \<lparr>address = ''0xA'', name = ''Binance'', balance = Finite 2500, txn_count = Finite 500000\<rparr>,
              \<lparr>address = ''0xB'', name = ''Kraken'', balance = Finite 1000, txn_count = Finite 500000\<rparr>])"
proof -
  have four: "(1::int) \<le> 4" by simp
  note nf = short_page_stop [OF stub_three_pages_short, THEN conjunct1]
  note st = short_page_stop [OF stub_three_pages_short, THEN conjunct2]
  have u: "[1..(4::int)] = [1, 2, 3, 4]" by (simp add: upto.simps)
  from scrape_exchanges_stop [OF four stub_three_pages_full nf] show ?thesis
    by (simp add: u st stub_three_pages_records pd_concat_def)
qed

text \<open>
  C7. Every run that returns has issued the requests for the pages 1, 2, ... up to its
  last one, in this order and at least one, and went on exactly over full pages. When it
  returns a table, the table is the fragments of the pages before the last one, appended
  in ascending page order, and inside each fragment the records keep the order of the
  page's rows: the addresses of the table are the first cells of the rows after each
  page's first row, page after page. A run that never returns has found every page full,
  the first one included.
\<close>

theorem scrape_exchanges_order:
  "(scrape_exchanges site = Some (sent, res) \<longrightarrow>
      sent \<noteq> [] \<and> sent = map (\<lambda>p. (p, 100)) [1..int (length sent)]
      \<and> (\<forall>p. 1 \<le> p \<and> p < int (length sent) \<longrightarrow> full_page site 100 p)
      \<and> (\<forall>table. res = Inr table \<longrightarrow>
           table = concat (map (page_records site 100) [1..int (length sent) - 1])
           \<and> map address table =
               concat (map (\<lambda>p. map (\<lambda>r. r ! 0) (drop 1 (page_rows site 100 p)))
                 [1..int (length sent) - 1])))
   \<and> (scrape_exchanges site = None \<longrightarrow> (\<forall>p\<ge>1. full_page site 100 p))"
proof (intro conjI impI allI)
  assume run: "scrape_exchanges site = Some (sent, res)"
  from scrape_exchanges_Some [OF run] obtain k where k: "1 \<le> k"
    "\<forall>p. 1 \<le> p \<and> p < k \<longrightarrow> full_page site 100 p" "sent = map (\<lambda>p. (p, 100)) [1..k]"
    by blast
  have len: "int (length sent) = k" using k(1,3) by simp
  show "sent \<noteq> []" using k(1,3) by simp
  show "sent = map (\<lambda>p. (p, 100)) [1..int (length sent)]" using k(3) len by simp
  fix p assume "1 \<le> p \<and> p < int (length sent)"
  then show "full_page site 100 p" using k(2) len by simp
next
  fix table assume "scrape_exchanges site = Some (sent, res)" "res = Inr table"
  then have run: "scrape_exchanges site = Some (sent, Inr table)" by simp
  show "table = concat (map (page_records site 100) [1..int (length sent) - 1])"
    by (rule scrape_exchanges_table(1) [OF run])
  show "map address table =
               concat (map (\<lambda>p. map (\<lambda>r. r ! 0) (drop 1 (page_rows site 100 p)))
                 [1..int (length sent) - 1])"
    by (rule scrape_exchanges_table(2) [OF run])
next
  fix p :: int assume "scrape_exchanges site = None" "1 \<le> p"
  then show "full_page site 100 p" by (rule scrape_exchanges_None)
qed


theorem scrape_exchanges_order_witness:
  "scrape_exchanges stub_three_pages =
     Some ([(1::int, 100::int), (2, 100), (3, 100), (4, 100)],
           Inr [\<lparr>address = ''0xA'', name = ''Binance'', balance = Finite 2500, txn_count = Finite 500000\<rparr>,
              \<lparr>address = ''0xB'', name = ''Kraken'', balance = Finite 1000, txn_count = Finite 500000\<rparr>,
              \<lparr>address = ''0xA'', name = ''Binance'', balance = Finite 2500, txn_count = Finite 500000\<rparr>,
              \<lparr>address = ''0xB'', name = ''Kraken'', balance = Finite 1000, txn_count = Finite 500000\<rparr>,
              \<lparr>address = ''0xA'', name = ''Binance'', balance = Finite 2500, txn_count = Finite 500000\<rparr>,
              \<lparr>address = ''0xB'', name = ''Kraken'', balance = Finite 1000, txn_count = Finite 500000\<rparr>])
   \<and> [(1::int, 100::int), (2, 100), (3, 100), (4, 100)] \<noteq> []
   \<and> map address [\<lparr>address = ''0xA'', name = ''Binance'', balance = Finite 2500, txn_count = Finite 500000\<rparr>,
              \<lparr>address = ''0xB'', name = ''Kraken'', balance = Finite 1000, txn_count = Finite 500000\<rparr>,
              \<lparr>address = ''0xA'', name = ''Binance'', balance = Finite 2500, txn_count = Finite 500000\<rparr>,
              \<lparr>address = ''0xB'', name = ''Kraken'', balance = Finite 1000, txn_count = Finite 500000\<rparr>,
              \<lparr>address = ''0xA'', name = ''Binance'', balance = Finite 2500, txn_count = Finite 500000\<rparr>,
              \<lparr>address = ''0xB'', name = ''Kraken'', balance = Finite 1000, txn_count = Finite 500000\<rparr>] =
       [''0xA'', ''0xB'', ''0xA'', ''0xB'', ''0xA'', ''0xB'']
   \<and> concat (map (\<lambda>p. map (\<lambda>r. r ! 0) (drop 1 (page_rows stub_three_pages 100 p)))
         [1..int (length [(1::int, 100::int), (2, 100), (3, 100), (4, 100)]) - 1]) =
       [''0xA'', ''0xB'', ''0xA'', ''0xB'', ''0xA'', ''0xB'']"
proof -
  let ?S = "[(1::int, 100::int), (2, 100), (3, 100), (4, 100)]"
  let ?T = "[\<lparr>address = ''0xA'', name = ''Binance'', balance = Finite 2500, txn_count = Finite 500000\<rparr>,
              \<lparr>address = ''0xB'', name = ''Kraken'', balance = Finite 1000, txn_count = Finite 500000\<rparr>,
              \<lparr>address = ''0xA'', name = ''Binance'', balance = Finite 2500, txn_count = Finite 500000\<rparr>,
              \<lparr>address = ''0xB'', name = ''Kraken'', balance = Finite 1000, txn_count = Finite 500000\<rparr>,
              \<lparr>address = ''0xA'', name = ''Binance'', balance = Finite 2500, txn_count = Finite 500000\<rparr>,
              \<lparr>address = ''0xB'', name = ''Kraken'', balance = Finite 1000, txn_count = Finite 500000\<rparr>]"
  note t = scrape_exchanges_order [of stub_three_pages ?S "Inr ?T"]
  note c = t [THEN conjunct1, THEN mp, OF stub_three_pages_run]
  note d = c [THEN conjunct2, THEN conjunct2, THEN conjunct2, THEN spec, THEN mp, OF refl,
    THEN conjunct2]
  from d
  have "map address ?T =
               concat (map (\<lambda>p. map (\<lambda>r. r ! 0) (drop 1 (page_rows stub_three_pages 100 p)))
                 [1..int (length ?S) - 1])" .
  then have "concat (map (\<lambda>p. map (\<lambda>r. r ! 0) (drop 1 (page_rows stub_three_pages 100 p)))
         [1..int (length ?S) - 1]) = [''0xA'', ''0xB'', ''0xA'', ''0xB'', ''0xA'', ''0xB'']"
    by simp
  with stub_three_pages_run show ?thesis by simp
qed

section \<open>Transaction history fetcher: stopping\<close>

lemma paging_guard_false:
  "\<not> page * offset \<le> 10000 \<Longrightarrow>
     paging api addr key offset page sent txns = Some (sent, Inr txns)"
  by (subst paging.simps) simp

lemma paging_step:
  "page * offset \<le> 10000 \<Longrightarrow>
     paging api addr key offset page sent txns =
       (case api sent (txn_req addr key offset page) of
          Inl e \<Rightarrow> Some (sent @ [txn_req addr key offset page], Inl e)
        | Inr response \<Rightarrow>
            if status response \<noteq> ''1''
            then Some (sent @ [txn_req addr key offset page], Inr txns)
            else (case result response of
                    Inl s \<Rightarrow> Some (sent @ [txn_req addr key offset page], Inl FrameConstructorError)
                  | Inr page_txns \<Rightarrow>
                      paging api addr key offset (page + 1) (sent @ [txn_req addr key offset page])
                        (txns @ [page_txns])))"
  unfolding txn_req_def by (subst paging.simps) (simp add: Let_def)


lemma paging_terminates:
  assumes "0 < offset"
  shows "1 \<le> page \<Longrightarrow>
     \<exists>new res. paging api addr key offset page sent txns = Some (sent @ new, res)
        \<and> new = map (txn_req addr key offset) [page..page + int (length new) - 1]
        \<and> (\<forall>p\<in>set [page..page + int (length new) - 1]. p * offset \<le> 10000)
        \<and> (page * offset \<le> 10000 \<longrightarrow> new \<noteq> [])"
proof (induction "nat (10001 - page)" arbitrary: page sent txns)
  case 0
  then have "10000 < page" by simp
  also have "page = page * 1" by simp
  also have "page * 1 \<le> page * offset" using assms 0(2) by (intro mult_left_mono) simp_all
  finally have g: "\<not> page * offset \<le> 10000" by simp
  then have "paging api addr key offset page sent txns = Some (sent @ [], Inr txns)"
    by (simp add: paging_guard_false)
  then show ?case using g by (intro exI [of _ "[]"] exI [of _ "Inr txns"]) simp
next
  case (Suc n)
  let ?req = "txn_req addr key offset page"
  have one: "\<And>res. paging api addr key offset page sent txns = Some (sent @ [?req], res) \<Longrightarrow>
     page * offset \<le> 10000 \<Longrightarrow> ?case"
  proof -
    fix res assume "paging api addr key offset page sent txns = Some (sent @ [?req], res)"
      and "page * offset \<le> 10000"
    then show ?case
      by (intro exI [of _ "[?req]"] exI [of _ res]) (simp add: upto.simps)
  qed
  show ?case
  proof (cases "page * offset \<le> 10000")
    case False
    then have "paging api addr key offset page sent txns = Some (sent @ [], Inr txns)"
      by (simp add: paging_guard_false)
    then show ?thesis using False by (intro exI [of _ "[]"] exI [of _ "Inr txns"]) simp
  next
    case guard: True
    note step = paging_step [OF guard, of api addr key sent txns]
    show ?thesis
    proof (cases "api sent ?req")
      case (Inl e)
      then show ?thesis using step guard by (intro one [of "Inl e"]) simp_all
    next
      case (Inr response)
      show ?thesis
      proof (cases "status response \<noteq> ''1''")
        case True
        then show ?thesis using step guard Inr by (intro one [of "Inr txns"]) simp_all
      next
        case ok: False
        show ?thesis
        proof (cases "result response")
          case (Inl s)
          then show ?thesis using step guard Inr ok
            by (intro one [of "Inl FrameConstructorError"]) simp_all
        next
          case page_txns: (Inr page_txns)
          have n: "n = nat (10001 - (page + 1))" using Suc.hyps(2) by simp
          have p: "1 \<le> page + 1" using Suc.prems by simp
          from Suc.hyps(1) [OF n p, of "sent @ [?req]" "txns @ [page_txns]"]
          obtain new res where rec: "paging api addr key offset (page + 1) (sent @ [?req])
                (txns @ [page_txns]) = Some ((sent @ [?req]) @ new, res)"
            and pages: "new = map (txn_req addr key offset) [page + 1..page + 1 + int (length new) - 1]"
            and le: "\<forall>p\<in>set [page + 1..page + 1 + int (length new) - 1]. p * offset \<le> 10000"
            by blast
          have run: "paging api addr key offset page sent txns = Some (sent @ (?req # new), res)"
            using step Inr ok page_txns rec by simp
          have up: "[page..page + int (length (?req # new)) - 1] =
                    page # [page + 1..page + 1 + int (length new) - 1]"
            by (subst upto_rec1) simp_all
          have pages': "?req # new = map (txn_req addr key offset) [page..page + int (length (?req # new)) - 1]"
            unfolding up using pages by simp
          have le': "\<forall>p\<in>set [page..page + int (length (?req # new)) - 1]. p * offset \<le> 10000"
            unfolding up using le guard by simp
          show ?thesis
            by (rule exI [of _ "?req # new"], rule exI [of _ res], intro conjI impI)
               (use run pages' le' in simp_all)
        qed
      qed
    qed
  qed
qed

lemma paging_from_first_page:
  assumes "0 < offset"
  shows "\<exists>new res. paging api addr key offset 1 sent txns = Some (sent @ new, res)
        \<and> new = map (txn_req addr key offset) [1..int (length new)]
        \<and> int (length new) * offset \<le> 10000
        \<and> (offset \<le> 10000 \<longrightarrow> new \<noteq> [])"
proof -
  from paging_terminates [OF assms, of 1 api addr key sent txns]
  obtain new res where run: "paging api addr key offset 1 sent txns = Some (sent @ new, res)"
    and pages: "new = map (txn_req addr key offset) [1..1 + int (length new) - 1]"
    and le: "\<forall>p\<in>set [1..1 + int (length new) - 1]. p * offset \<le> 10000"
    and ne: "1 * offset \<le> 10000 \<longrightarrow> new \<noteq> []"
    by blast
  have "int (length new) * offset \<le> 10000"
  proof (cases "new = []")
    case True
    then show ?thesis by simp
  next
    case False
    then have "int (length new) \<in> set [1..1 + int (length new) - 1]" by (cases new) simp_all
    with le show ?thesis by blast
  qed
  with run pages ne show ?thesis by (intro exI [of _ new] exI [of _ res]) simp
qed

lemma txn_req_sel:
  "req_address (txn_req addr key offset page) = addr"
  "req_page (txn_req addr key offset page) = page"
  "req_offset (txn_req addr key offset page) = offset"
  "req_apikey (txn_req addr key offset page) = key"
  by (simp_all add: txn_req_def)

lemma fetch_addresses_terminates:
  assumes "0 < offset"
  shows "\<exists>new res. fetch_addresses api key offset addrs sent m = Some (sent @ new, res)
        \<and> (\<forall>r\<in>set new. req_address r \<in> set addrs \<and> 1 \<le> req_page r
               \<and> req_page r * offset \<le> 10000)
        \<and> int (length new) * offset \<le> 10000 * int (length addrs)"
proof (induction addrs arbitrary: sent m)
  case Nil
  show ?case by (intro exI [of _ "[]"] exI [of _ "Inr m"]) simp
next
  case (Cons addr rest)
  from paging_from_first_page [OF assms, of api addr key sent "[]"]
  obtain new res where run: "paging api addr key offset 1 sent [] = Some (sent @ new, res)"
    and pages: "new = map (txn_req addr key offset) [1..int (length new)]"
    and le: "int (length new) * offset \<le> 10000"
    by blast
  have each: "req_address r \<in> set (addr # rest) \<and> 1 \<le> req_page r \<and> req_page r * offset \<le> 10000"
    if r: "r \<in> set new" for r
  proof -
    have "set new = set (map (txn_req addr key offset) [1..int (length new)])"
      using arg_cong [OF pages, of set] .
    with r have "r \<in> txn_req addr key offset ` {1..int (length new)}" by simp
    then obtain p where p: "r = txn_req addr key offset p" "1 \<le> p" "p \<le> int (length new)"
      by (elim imageE) simp
    have "p * offset \<le> int (length new) * offset"
      using p(3) assms by (intro mult_right_mono) simp_all
    with le p show ?thesis by (simp add: txn_req_sel)
  qed
  have len: "int (length new) * offset \<le> 10000 * int (length (addr # rest))"
  proof -
    have "(0::int) \<le> 10000 * int (length rest)" by simp
    with le show ?thesis by (simp add: algebra_simps)
  qed
  have stop: ?case if "fetch_addresses api key offset (addr # rest) sent m = Some (sent @ new, r)" for r
    using that each len by (intro exI [of _ new] exI [of _ r]) simp
  show ?case
  proof (cases res)
    case (Inl e)
    then show ?thesis using run by (intro stop [of "Inl e"]) simp
  next
    case (Inr txns)
    show ?thesis
    proof (cases "pd_concat txns")
      case (Inl e)
      then show ?thesis using run Inr by (intro stop [of "Inl e"]) simp
    next
      case table: (Inr table)
      from Cons.IH [of "sent @ new" "m(addr \<mapsto> table)"]
      obtain new' res' where rec: "fetch_addresses api key offset rest (sent @ new) (m(addr \<mapsto> table))
            = Some ((sent @ new) @ new', res')"
        and each': "\<forall>r\<in>set new'. req_address r \<in> set rest \<and> 1 \<le> req_page r
               \<and> req_page r * offset \<le> 10000"
        and len': "int (length new') * offset \<le> 10000 * int (length rest)"
        by blast
      have run': "fetch_addresses api key offset (addr # rest) sent m = Some (sent @ (new @ new'), res')"
        using run Inr table rec by simp
      have e: "\<forall>r\<in>set (new @ new'). req_address r \<in> set (addr # rest) \<and> 1 \<le> req_page r
               \<and> req_page r * offset \<le> 10000"
      proof
        fix r assume "r \<in> set (new @ new')"
        then consider "r \<in> set new" | "r \<in> set new'" by auto
        then show "req_address r \<in> set (addr # rest) \<and> 1 \<le> req_page r
               \<and> req_page r * offset \<le> 10000"
        proof cases
          case 1
          then show ?thesis by (rule each)
        next
          case 2
          with each' show ?thesis by simp
        qed
      qed
      have l: "int (length (new @ new')) * offset \<le> 10000 * int (length (addr # rest))"
        using le len' by (simp add: algebra_simps)
      show ?thesis using run' e l by blast
    qed
  qed
qed

lemma paging_first_failure:
  assumes "page * offset \<le> 10000"
      and "api sent (txn_req addr key offset page) = Inr response"
      and "status response \<noteq> ''1''"
  shows "paging api addr key offset page sent txns =
           Some (sent @ [txn_req addr key offset page], Inr txns)"
  using paging_step [OF assms(1), of api addr key sent txns] assms(2,3) by simp

text \<open>
  The bound on the offset is needed: with offset 0 the guard \<open>page * offset \<le> 10000\<close>
  holds at every page, and against an endpoint that always reports success the loop for
  one address never returns.
\<close>

lemma paging_zero_offset_diverges:
  "paging api_always_ok addr key 0 page sent txns = None"
proof (cases "paging api_always_ok addr key 0 page sent txns")
  case None
  then show ?thesis .
next
  case (Some y)
  have "\<not> (api_always_ok = api_always_ok \<and> (0::int) = 0)"
  proof (rule paging.raw_induct
      [where P = "\<lambda>api addr key offset page sent txns y.
                    \<not> (api = api_always_ok \<and> offset = 0)", OF _ Some], goal_cases)
    case (1 loop api addr key offset page sent txns y)
    show ?case
    proof
      assume a: "api = api_always_ok \<and> offset = 0"
      with 1(2) have "loop api_always_ok addr key 0 (page + 1)
          (sent @ [\<lparr>req_address = addr, req_page = page, req_offset = 0, req_apikey = key\<rparr>])
          (txns @ [[]]) = Some y"
        by (simp add: api_always_ok_def Let_def)
      from 1(1) [OF this] show False by simp
    qed
  qed
  then show ?thesis by simp
qed


lemma upto_1_1: "[1..(1::int)] = [1]"
  by (simp add: upto.simps)

lemma upto_1_2: "[1..(2::int)] = [1, 2]"
  by (simp add: upto.simps)

lemma paging_5000:
  "\<exists>new res. paging api addr key 5000 1 sent txns = Some (sent @ new, res)
      \<and> (new = [txn_req addr key 5000 1]
           \<or> new = [txn_req addr key 5000 1, txn_req addr key 5000 2])"
proof -
  have "(0::int) < 5000" by simp
  from paging_from_first_page [OF this, of api addr key sent txns]
  obtain new res where run: "paging api addr key 5000 1 sent txns = Some (sent @ new, res)"
    and pages: "new = map (txn_req addr key 5000) [1..int (length new)]"
    and le: "int (length new) * 5000 \<le> 10000"
    and ne: "new \<noteq> []"
    by auto
  from le have "length new \<le> 2" by simp
  moreover from ne have "0 < length new" by simp
  ultimately have "length new = 1 \<or> length new = 2" by arith
  then have "new = [txn_req addr key 5000 1]
           \<or> new = [txn_req addr key 5000 1, txn_req addr key 5000 2]"
  proof
    assume l: "length new = 1"
    have "new = map (txn_req addr key 5000) [1..1]" using pages [unfolded l] by simp
    then show ?thesis by (simp add: upto_1_1)
  next
    assume l: "length new = 2"
    have "new = map (txn_req addr key 5000) [1..2]" using pages [unfolded l] by simp
    then show ?thesis by (simp add: upto_1_2)
  qed
  with run show ?thesis by blast
qed

lemma paging_always_ok_5000:
  "paging api_always_ok addr key 5000 1 sent txns =
     Some (sent @ [txn_req addr key 5000 1, txn_req addr key 5000 2], Inr (txns @ [[], []]))"
proof -
  have 3: "paging api_always_ok addr key 5000 3 (sent @ [txn_req addr key 5000 1, txn_req addr key 5000 2])
             (txns @ [[], []])
           = Some (sent @ [txn_req addr key 5000 1, txn_req addr key 5000 2], Inr (txns @ [[], []]))"
    by (rule paging_guard_false) simp
  have 2: "paging api_always_ok addr key 5000 2 (sent @ [txn_req addr key 5000 1]) (txns @ [[]])
           = Some (sent @ [txn_req addr key 5000 1, txn_req addr key 5000 2], Inr (txns @ [[], []]))"
    by (subst paging_step) (simp_all add: api_always_ok_def 3)
  show ?thesis
    by (subst paging_step) (simp_all add: api_always_ok_def 2)
qed

lemma get_txn_history_always_ok:
  "map_option fst (get_txn_history getpass api_always_ok [''0xA'', ''0xB''] (Some ''key'') 5000) =
     Some [txn_req ''0xA'' ''key'' 5000 1, txn_req ''0xA'' ''key'' 5000 2,
           txn_req ''0xB'' ''key'' 5000 1, txn_req ''0xB'' ''key'' 5000 2]"
  by (simp add: get_txn_history_def paging_always_ok_5000 pd_concat_def)

text \<open>
  C2. Hard-stop of the fetcher. With offset 5000 the loop for one address returns after
  the request for page 1 or after the requests for pages 1 and 2, whatever the API
  answers. For every positive offset the loop for one address returns, having issued the
  requests for pages 1 to n for some n with n * offset at most 10000, and so does the
  whole of \<open>get_txn_history\<close>: each of its requests is for one of the input addresses and
  for a page p from 1 on with p * offset at most 10000, and their number times the offset
  is at most 10000 per input address.
\<close>

theorem get_txn_history_hard_stop:
  "(\<exists>new res. paging api addr key 5000 1 sent txns = Some (sent @ new, res)
      \<and> (new = [txn_req addr key 5000 1]
           \<or> new = [txn_req addr key 5000 1, txn_req addr key 5000 2]))
   \<and> (0 < offset \<longrightarrow>
        (\<exists>new res. paging api addr key offset 1 sent txns = Some (sent @ new, res)
           \<and> new = map (txn_req addr key offset) [1..int (length new)]
           \<and> int (length new) * offset \<le> 10000))
   \<and> (0 < offset \<longrightarrow>
        (\<exists>sent' res. get_txn_history getpass api addresses api_key offset = Some (sent', res)
           \<and> (\<forall>r\<in>set sent'. req_address r \<in> set addresses \<and> 1 \<le> req_page r
                  \<and> req_page r * offset \<le> 10000)
           \<and> int (length sent') * offset \<le> 10000 * int (length addresses)))"
proof (intro conjI impI)
  show "\<exists>new res. paging api addr key 5000 1 sent txns = Some (sent @ new, res)
      \<and> (new = [txn_req addr key 5000 1]
           \<or> new = [txn_req addr key 5000 1, txn_req addr key 5000 2])"
    by (rule paging_5000)
next
  assume "0 < offset"
  from paging_from_first_page [OF this, of api addr key sent txns]
  show "\<exists>new res. paging api addr key offset 1 sent txns = Some (sent @ new, res)
           \<and> new = map (txn_req addr key offset) [1..int (length new)]
           \<and> int (length new) * offset \<le> 10000"
    by blast
next
  assume "0 < offset"
  from fetch_addresses_terminates [OF this, of api _ addresses "[]" Map.empty]
  show "\<exists>sent' res. get_txn_history getpass api addresses api_key offset = Some (sent', res)
           \<and> (\<forall>r\<in>set sent'. req_address r \<in> set addresses \<and> 1 \<le> req_page r
                  \<and> req_page r * offset \<le> 10000)
           \<and> int (length sent') * offset \<le> 10000 * int (length addresses)"
    unfolding get_txn_history_def by simp
qed

theorem get_txn_history_hard_stop_witness:
  "(0::int) < 5000
   \<and> paging api_always_ok ''0xA'' ''key'' 5000 1 [] [] =
       Some ([txn_req ''0xA'' ''key'' 5000 1, txn_req ''0xA'' ''key'' 5000 2], Inr [[], []])
   \<and> int (length [txn_req ''0xA'' ''key'' 5000 1, txn_req ''0xA'' ''key'' 5000 2]) * 5000 \<le> 10000
   \<and> map_option fst (get_txn_history ''pw'' api_always_ok [''0xA'', ''0xB''] (Some ''key'') 5000) =
       Some [txn_req ''0xA'' ''key'' 5000 1, txn_req ''0xA'' ''key'' 5000 2,
             txn_req ''0xB'' ''key'' 5000 1, txn_req ''0xB'' ''key'' 5000 2]
   \<and> map req_page [txn_req ''0xA'' ''key'' 5000 1, txn_req ''0xA'' ''key'' 5000 2,
             txn_req ''0xB'' ''key'' 5000 1, txn_req ''0xB'' ''key'' 5000 2] = [1, 2, 1, 2]"
proof -
  note hard_stop = get_txn_history_hard_stop
    [where api = api_always_ok and addr = "''0xA''" and key = "''key''" and sent = "[]"
       and txns = "[]" and offset = 5000 and getpass = "''pw''"
       and addresses = "[''0xA'', ''0xB'']" and api_key = "Some ''key''"]
  have pos: "(0::int) < 5000" by simp
  from hard_stop [THEN conjunct2, THEN conjunct1, THEN mp, OF pos]
  obtain new res where run: "paging api_always_ok ''0xA'' ''key'' 5000 1 [] [] = Some ([] @ new, res)"
    and le: "int (length new) * 5000 \<le> 10000"
    by blast
  have new: "new = [txn_req ''0xA'' ''key'' 5000 1, txn_req ''0xA'' ''key'' 5000 2]"
    and res: "res = Inr [[], []]"
    using run paging_always_ok_5000 [of "''0xA''" "''key''" "[]" "[]"] by simp_all
  show ?thesis
    using run le unfolding new res
    by (simp add: get_txn_history_always_ok txn_req_sel)
qed

text \<open>
  C1. Soft-stop of the fetcher. When the first request for an address is answered with a
  status other than "1", the loop for that address ends after this one request with no
  page collected; \<^verbatim>\<open>pd.concat\<close> of the empty list then raises, so the run ends with
  that exception: no table is recorded for the address and no request is made for the
  addresses after it.
\<close>

theorem fetch_addresses_first_failure_raises:
  assumes "offset \<le> 10000"
      and "api sent (txn_req addr key offset 1) = Inr response"
      and "status response \<noteq> ''1''"
  shows "fetch_addresses api key offset (addr # rest) sent txns_by_address =
           Some (sent @ [txn_req addr key offset 1], Inl NoObjectsToConcatenate)"
proof -
  have "1 * offset \<le> 10000" using assms(1) by simp
  then have "paging api addr key offset 1 sent [] = Some (sent @ [txn_req addr key offset 1], Inr [])"
    using assms(2,3)
    by (rule paging_first_failure [where api = api and page = 1 and sent = sent])
  then show ?thesis by (simp add: pd_concat_def)
qed

theorem fetch_addresses_first_failure_raises_witness:
  "(5000::int) \<le> 10000
   \<and> api_no_transactions [] (txn_req ''0xA'' ''key'' 5000 1) =
       Inr \<lparr>status = ''0'', message = ''No transactions found'', result = Inr []\<rparr>
   \<and> ''0'' \<noteq> ''1''
   \<and> get_txn_history ''pw'' api_no_transactions [''0xA'', ''0xB''] (Some ''key'') 5000 =
       Some ([txn_req ''0xA'' ''key'' 5000 1], Inl NoObjectsToConcatenate)"
proof -
  have a: "(5000::int) \<le> 10000" by simp
  have b: "api_no_transactions [] (txn_req ''0xA'' ''key'' 5000 1) =
       Inr \<lparr>status = ''0'', message = ''No transactions found'', result = Inr []\<rparr>"
    by (simp add: api_no_transactions_def)
  have c: "status \<lparr>status = ''0'', message = ''No transactions found'',
              result = (Inr [] :: string + unit list)\<rparr> \<noteq> ''1''"
    by simp
  from fetch_addresses_first_failure_raises
    [where api = api_no_transactions and sent = "[]" and rest = "[''0xB'']"
       and txns_by_address = Map.empty, OF a b c]
  show ?thesis using b by (simp add: get_txn_history_def)
qed

end
